theory Spec2Isabelle
  imports Complex_Main "HOL-Library.AList" "HOL-Library.List_Lexorder" "HOL-Library.Char_ord"
begin

section \<open>The motion-JPEG relay of \<^verbatim>\<open>gavin/minimjpeg.py\<close>\<close>

text \<open>
  The module has one entry point, \<^verbatim>\<open>handle_frame\<close>, and one process-wide dictionary
  \<^verbatim>\<open>SERVERS\<close> guarded by \<^verbatim>\<open>SERVERS_LOCK\<close>. The embedding follows Python 3 (3.7 or later):
  dictionaries keep insertion order (association lists, updated in place by
  \<^const>\<open>AList.update\<close>), \<^verbatim>\<open>int()\<close> and \<^verbatim>\<open>float()\<close> accept single underscores between digits,
  and formatting the bytes object \<^verbatim>\<open>BOUNDARY\<close> into a string gives its \<^verbatim>\<open>repr\<close>.

  Everything the operating system, the clock, the peers and the image backends decide is
  an input of the model (record \<open>env\<close>): the time, whether bind/listen succeeds, the
  pending connection, which client sockets are readable, what \<^verbatim>\<open>recv\<close> returns, which
  \<^verbatim>\<open>send\<close> calls raise and what the encoder returns. Everything the code does to the
  outside is logged as a list of events. Times and delays are exact rationals (float
  rounding and overflow are not modelled); the non-finite results \<^verbatim>\<open>inf\<close> and \<^verbatim>\<open>nan\<close> that
  \<^verbatim>\<open>float()\<close> can return on a request parameter are modelled. Text is a list of 8-bit
  characters. The \<^verbatim>\<open>debug\<close> prints are left out, and \<^verbatim>\<open>send\<close>/\<^verbatim>\<open>sendall\<close> are one operation
  that either raises or transmits the whole message.
\<close>

subsection \<open>Data\<close>

type_synonym bytes = string
type_synonym sock = nat
type_synonym laddr = "string \<times> nat"
type_synonym raddr = "string \<times> nat"

datatype pyfloat = Fin rat | PInf | NaN

text \<open>The client tuple \<^verbatim>\<open>(sock, chan, quality, delay, last_sent, headers_sent)\<close>;
  \<open>chan\<close> is \<open>None\<close> when the configured \<^verbatim>\<open>default_chan\<close> is \<^verbatim>\<open>None\<close>.\<close>

record client =
  sock :: sock
  chan :: "string option"
  quality :: int
  delay :: pyfloat
  last_sent :: rat
  headers_sent :: bool

text \<open>The server tuple \<^verbatim>\<open>(lock, server, last_times, clients)\<close>; the lock is a reference
  into the store of lock objects.\<close>

record endpoint =
  lock :: nat
  server :: sock
  last_times :: "(string \<times> rat) list"
  clients :: "(raddr \<times> client) list"

text \<open>The module globals, and the lock objects created so far (\<open>True\<close>: held).\<close>

record globals =
  SERVERS :: "(laddr \<times> endpoint) list"
  SERVERS_LOCK :: bool
  locks :: "nat \<Rightarrow> bool"
  lock_count :: nat

text \<open>The keyword arguments of \<^verbatim>\<open>handle_frame\<close> other than frame, channel, ip and port.\<close>

record config =
  min_delay :: rat
  default_delay :: rat
  max_quality :: int
  default_quality :: int
  default_chan :: "string option"
  headers :: "(string \<times> string) list"

definition default_config :: config where
  "default_config = \<lparr>min_delay = 1 / 100, default_delay = 4 / 100, max_quality = 95,
     default_quality = 80, default_chan = Some [], headers = []\<rparr>"

datatype frame = QImageFrame "nat list" | ArrayFrame "nat list"

datatype message = StreamHeader | IndexPage "string list" | FrameChunk "(string \<times> string) list" bytes

datatype event =
    Listen laddr sock
  | Accepted sock raddr
  | SendOk sock message
  | SendFail sock message
  | Close sock
  | Encode frame int

datatype accept_result = NoConn | Conn sock raddr | AcceptRaises

datatype recv_result = RecvRaises | Data string

text \<open>
  \<open>listen\<close>: the socket that \<^verbatim>\<open>socket(); setsockopt(); bind(); listen()\<close> yields, \<open>None\<close> when
  one of them raises. \<open>pending\<close>: what \<^verbatim>\<open>select\<close> on the listening socket and \<^verbatim>\<open>accept\<close> give.
  \<open>recv\<close>: \<^verbatim>\<open>sock.recv(1500).decode()\<close>, \<open>RecvRaises\<close> when either call raises. \<open>send_ok\<close>:
  whether sending that message on that socket returns (under Python 3 it never does for
  the index page, which is passed as \<^verbatim>\<open>str\<close>). The two encoder backends return \<open>None\<close> when
  they raise.
\<close>

record env =
  now :: rat
  listen :: "sock option"
  pending :: accept_result
  readable :: "sock \<Rightarrow> bool"
  recv :: "sock \<Rightarrow> recv_result"
  send_ok :: "sock \<Rightarrow> message \<Rightarrow> bool"
  jpeg_compress_qimage :: "nat list \<Rightarrow> int \<Rightarrow> bytes option"
  jpeg_compress_numpy :: "nat list \<Rightarrow> int \<Rightarrow> bytes option"

datatype exn = OSError | ValueError | KeyError | EncoderError | RuntimeError

datatype outcome = Returns "raddr list" nat | Raises exn | Blocks

subsection \<open>The request scanner: \<^verbatim>\<open>GET_RE\<close>, \<^verbatim>\<open>PARAM_RE\<close>, \<^verbatim>\<open>int\<close>, \<^verbatim>\<open>float\<close>\<close>

definition is_digit :: "char \<Rightarrow> bool" where
  "is_digit c \<longleftrightarrow> (48::nat) \<le> of_char c \<and> of_char c \<le> (57::nat)"

text \<open>The character class \<^verbatim>\<open>[0-9a-zA-Z_]\<close>.\<close>

definition word_char :: "char \<Rightarrow> bool" where
  "word_char c \<longleftrightarrow> is_digit c
     \<or> ((97::nat) \<le> of_char c \<and> of_char c \<le> (122::nat))
     \<or> ((65::nat) \<le> of_char c \<and> of_char c \<le> (90::nat))
     \<or> c = CHR ''_''"

text \<open>The complement of \<^verbatim>\<open>\S\<close> on a Python 3 string, for code points below 256.\<close>

definition py_isspace :: "char \<Rightarrow> bool" where
  "py_isspace c \<longleftrightarrow> (of_char c :: nat) \<in> {9, 10, 11, 12, 13, 28, 29, 30, 31, 32, 133, 160}"

text \<open>\<^verbatim>\<open>GET_RE.findall(data)\<close> with \<^verbatim>\<open>GET_RE = re.compile(r"GET /(\S*)")\<close>: the captured
  paths of the non-overlapping matches, left to right.\<close>

function GET_RE_findall :: "string \<Rightarrow> string list" where
  "GET_RE_findall [] = []"
| "GET_RE_findall (c # cs) =
     (if take 5 (c # cs) = ''GET /''
      then takeWhile (\<lambda>x. \<not> py_isspace x) (drop 5 (c # cs))
             # GET_RE_findall (dropWhile (\<lambda>x. \<not> py_isspace x) (drop 5 (c # cs)))
      else GET_RE_findall cs)"
  by pat_completeness auto
termination
  by (relation "measure length") (auto intro: le_less_trans [OF length_dropWhile_le])

text \<open>\<^verbatim>\<open>PARAM_RE.findall(data)\<close> with
  \<^verbatim>\<open>PARAM_RE = re.compile(r"([0-9a-zA-Z_]+)=([0-9a-zA-Z_]+)")\<close>. Both groups are greedy
  runs of the class, and \<^verbatim>\<open>=\<close> is outside the class, so backtracking never finds a match
  that the maximal runs miss.\<close>

function PARAM_RE_findall :: "string \<Rightarrow> (string \<times> string) list" where
  "PARAM_RE_findall [] = []"
| "PARAM_RE_findall (c # cs) =
     (let k = takeWhile word_char (c # cs); r = dropWhile word_char (c # cs) in
      if k \<noteq> [] \<and> take 1 r = ''='' \<and> takeWhile word_char (drop 1 r) \<noteq> []
      then (k, takeWhile word_char (drop 1 r)) # PARAM_RE_findall (dropWhile word_char (drop 1 r))
      else PARAM_RE_findall cs)"
  by pat_completeness auto
termination
proof (relation "measure length", goal_cases)
  case 1
  show ?case by simp
next
  case (2 c cs k r)
  then have "take 1 r = ''=''" by blast
  then have "r \<noteq> []" by (cases r) simp_all
  then have "length (drop 1 r) < length r" by (cases r) auto
  moreover have "length (dropWhile word_char (drop 1 r)) \<le> length (drop 1 r)"
    by (rule length_dropWhile_le)
  moreover have "length r \<le> length (c # cs)"
    using 2 by (simp only: length_dropWhile_le)
  ultimately show ?case by simp
next
  case (3 c cs k r)
  show ?case by simp
qed

text \<open>\<^verbatim>\<open>dict(pairs).get(key)\<close>: the last pair with that key wins.\<close>

definition dict_get :: "(string \<times> string) list \<Rightarrow> string \<Rightarrow> string option" where
  "dict_get pairs k = map_of (rev pairs) k"

text \<open>Decimal digits in groups separated by single underscores: \<^verbatim>\<open>[0-9]+(_[0-9]+)*\<close>.\<close>

fun digit_groups :: "string \<Rightarrow> bool" where
  "digit_groups [] = False"
| "digit_groups [c] = is_digit c"
| "digit_groups (c # d # cs) =
     (is_digit c \<and> (if d = CHR ''_'' then digit_groups cs else digit_groups (d # cs)))"

definition py_digits :: "string \<Rightarrow> nat option" where
  "py_digits s = (if digit_groups s
     then Some (foldl (\<lambda>a c. 10 * a + (of_char c - 48)) 0 (filter is_digit s)) else None)"

text \<open>\<^verbatim>\<open>int(s)\<close> and \<^verbatim>\<open>float(s)\<close> for a string of the class \<^verbatim>\<open>[0-9a-zA-Z_]+\<close> (no sign, point or
  blank can reach them); \<open>None\<close> is \<^verbatim>\<open>ValueError\<close>.\<close>

definition py_int :: "string \<Rightarrow> int option" where
  "py_int s = map_option int (py_digits s)"

definition to_lower :: "char \<Rightarrow> char" where
  "to_lower c = (if (65::nat) \<le> of_char c \<and> of_char c \<le> (90::nat)
     then char_of (of_char c + (32::nat)) else c)"

definition py_float :: "string \<Rightarrow> pyfloat option" where
  "py_float s =
     (let l = map to_lower s in
      if l = ''inf'' \<or> l = ''infinity'' then Some PInf
      else if l = ''nan'' then Some NaN
      else let m = takeWhile (\<lambda>c. c \<noteq> CHR ''e'') l; x = dropWhile (\<lambda>c. c \<noteq> CHR ''e'') l in
        case py_digits m of
          None \<Rightarrow> None
        | Some a \<Rightarrow>
            if x = [] then Some (Fin (of_nat a))
            else (case py_digits (drop 1 x) of
                    None \<Rightarrow> None
                  | Some b \<Rightarrow> Some (Fin (of_nat a * 10 ^ b))))"

text \<open>\<^verbatim>\<open>x * 1e-3\<close>, and \<^verbatim>\<open>max(min_delay, x)\<close>, which returns its second argument only when
  that is greater than the first (so \<^verbatim>\<open>nan\<close> yields \<^verbatim>\<open>min_delay\<close>).\<close>

fun scale_ms :: "pyfloat \<Rightarrow> pyfloat" where
  "scale_ms (Fin r) = Fin (r * (1 / 1000))"
| "scale_ms PInf = PInf"
| "scale_ms NaN = NaN"

fun py_max :: "rat \<Rightarrow> pyfloat \<Rightarrow> pyfloat" where
  "py_max m (Fin r) = Fin (if m < r then r else m)"
| "py_max m PInf = PInf"
| "py_max m NaN = Fin m"

text \<open>\<^verbatim>\<open>now - t >= d\<close>.\<close>

fun elapsed :: "rat \<Rightarrow> pyfloat \<Rightarrow> bool" where
  "elapsed x (Fin r) = (r \<le> x)"
| "elapsed x PInf = False"
| "elapsed x NaN = False"

subsection \<open>Wire format\<close>

definition CRLF :: string where
  "CRLF = [CHR 0x0D, CHR 0x0A]"

text \<open>\<^verbatim>\<open>"{}".format(BOUNDARY)\<close> for \<^verbatim>\<open>BOUNDARY = b"mjpegboundary"\<close>.\<close>

definition BOUNDARY :: string where
  "BOUNDARY = ''b'' @ [CHR 0x27] @ ''mjpegboundary'' @ [CHR 0x27]"

definition STREAM_HEADER :: bytes where
  "STREAM_HEADER = ''HTTP/1.0 200 OK'' @ CRLF @ ''Connection: close'' @ CRLF
     @ ''Content-Type: multipart/x-mixed-replace;boundary='' @ BOUNDARY @ CRLF @ CRLF"

function str_nat :: "nat \<Rightarrow> string" where
  "str_nat n = (if n < 10 then [char_of (48 + n)]
     else str_nat (n div 10) @ [char_of (48 + n mod 10)])"
  by pat_completeness auto
termination
  by (relation "measure id") auto

definition frame_data :: "(string \<times> string) list \<Rightarrow> bytes \<Rightarrow> bytes" where
  "frame_data hs frame_jpeg =
     ''--'' @ BOUNDARY @ CRLF @ ''Content-Type: image/jpeg'' @ CRLF
     @ ''Content-Length: '' @ str_nat (length frame_jpeg) @ CRLF
     @ ''Cache-Control: no-cache'' @ CRLF
     @ concat (map (\<lambda>(k, v). k @ '': '' @ v @ CRLF) hs) @ CRLF @ frame_jpeg"

text \<open>The number of bytes added to \<^verbatim>\<open>sent\<close> for a message (the index page is not counted
  by the code).\<close>

fun wire_len :: "message \<Rightarrow> nat" where
  "wire_len StreamHeader = length STREAM_HEADER"
| "wire_len (FrameChunk hs frame_jpeg) = length (frame_data hs frame_jpeg)"
| "wire_len (IndexPage names) = 0"

subsection \<open>Negotiation and the per-client request step (lines 171--203)\<close>

text \<open>Lines 191--194. \<open>None\<close> is the \<^verbatim>\<open>ValueError\<close> of \<^verbatim>\<open>int\<close> or \<^verbatim>\<open>float\<close>. The fallback of
  each \<^verbatim>\<open>params.get\<close> is the stored value, and the clamp, the floor and the factor
  \<^verbatim>\<open>1e-3\<close> are applied to whatever \<^verbatim>\<open>get\<close> returns.\<close>

definition negotiate :: "config \<Rightarrow> client \<Rightarrow> string \<Rightarrow> (string option \<times> int \<times> pyfloat) option" where
  "negotiate cfg cl data =
     (let params = PARAM_RE_findall data in
      case (case dict_get params ''quality'' of None \<Rightarrow> Some (quality cl) | Some v \<Rightarrow> py_int v) of
        None \<Rightarrow> None
      | Some q \<Rightarrow>
         (case (case dict_get params ''delay'' of None \<Rightarrow> Some (delay cl) | Some v \<Rightarrow> py_float v) of
            None \<Rightarrow> None
          | Some d \<Rightarrow>
              Some (case dict_get params ''channel'' of
                      Some c \<Rightarrow> Some c
                    | None \<Rightarrow> (case dict_get params ''source'' of Some c \<Rightarrow> Some c | None \<Rightarrow> chan cl),
                    min (max_quality cfg) q,
                    py_max (min_delay cfg) (scale_ms d))))"

text \<open>The test of line 178 on the paths that \<^verbatim>\<open>GET_RE\<close> finds.\<close>

definition index_request :: "config \<Rightarrow> string \<Rightarrow> bool" where
  "index_request cfg data \<longleftrightarrow>
     ''index.html'' \<in> set (GET_RE_findall data)
     \<or> ([] \<in> set (GET_RE_findall data) \<and> default_chan cfg = None)"

text \<open>The body of the \<^verbatim>\<open>try\<close> of lines 171--203 for one readable client: the record to
  store (\<open>None\<close>: \<^verbatim>\<open>del clients[addr]\<close>), the bytes added to \<^verbatim>\<open>sent\<close>, and the events.\<close>

definition handle_request ::
  "env \<Rightarrow> config \<Rightarrow> (string \<times> rat) list \<Rightarrow> client \<Rightarrow> client option \<times> nat \<times> event list" where
  "handle_request e cfg lt cl =
     (case recv e (sock cl) of
        RecvRaises \<Rightarrow> (None, 0, [])
      | Data d \<Rightarrow>
          if d = [] then (None, 0, [])
          else
            if index_request cfg d
            then (if send_ok e (sock cl) (IndexPage (sort (map fst lt)))
                  then (None, 0, [SendOk (sock cl) (IndexPage (sort (map fst lt))), Close (sock cl)])
                  else (None, 0, [SendFail (sock cl) (IndexPage (sort (map fst lt)))]))
            else (case negotiate cfg cl d of
                    None \<Rightarrow> (None, 0, [])
                  | Some (c, q, dl) \<Rightarrow>
                      if send_ok e (sock cl) StreamHeader
                      then (Some (cl\<lparr>chan := c, quality := q, delay := dl, headers_sent := True\<rparr>),
                            wire_len StreamHeader, [SendOk (sock cl) StreamHeader])
                      else (None, 0, [SendFail (sock cl) StreamHeader])))"

text \<open>The loop of line 169 over the snapshot \<^verbatim>\<open>list(clients.items())\<close>.\<close>

fun requests_loop ::
  "env \<Rightarrow> config \<Rightarrow> (string \<times> rat) list \<Rightarrow> (raddr \<times> client) list
     \<Rightarrow> (raddr \<times> client) list \<times> nat \<times> event list \<Rightarrow> (raddr \<times> client) list \<times> nat \<times> event list" where
  "requests_loop e cfg lt [] acc = acc"
| "requests_loop e cfg lt ((ra, cl) # rest) (cls, sent, evs) =
     requests_loop e cfg lt rest
       (if readable e (sock cl)
        then (case handle_request e cfg lt cl of
                (None, n, ev) \<Rightarrow> (AList.delete ra cls, sent, evs @ ev)
              | (Some cl', n, ev) \<Rightarrow> (AList.update ra cl' cls, sent + n, evs @ ev))
        else (cls, sent, evs))"

subsection \<open>Receivers, encoding and fan-out (lines 204--233)\<close>

definition receivers :: "env \<Rightarrow> string \<Rightarrow> (raddr \<times> client) list \<Rightarrow> (raddr \<times> client) list" where
  "receivers e channel cls =
     filter (\<lambda>(a, cl). headers_sent cl \<and> chan cl = Some channel
                        \<and> elapsed (now e - last_sent cl) (delay cl)) cls"

text \<open>\<^verbatim>\<open>max\<close> of a list; it is only called on the qualities of a non-empty receiver list.\<close>

fun max_list :: "int list \<Rightarrow> int" where
  "max_list [] = 0"
| "max_list [x] = x"
| "max_list (x # y # ys) = max x (max_list (y # ys))"

definition jpeg_compress :: "env \<Rightarrow> frame \<Rightarrow> int \<Rightarrow> bytes option" where
  "jpeg_compress e im q =
     (case im of QImageFrame px \<Rightarrow> jpeg_compress_qimage e px q
               | ArrayFrame px \<Rightarrow> jpeg_compress_numpy e px q)"

text \<open>The loop of lines 220--232.\<close>

fun send_loop ::
  "env \<Rightarrow> message \<Rightarrow> (raddr \<times> client) list
     \<Rightarrow> (raddr \<times> client) list \<times> nat \<times> event list \<Rightarrow> (raddr \<times> client) list \<times> nat \<times> event list" where
  "send_loop e m [] acc = acc"
| "send_loop e m ((ra, cl) # rest) (cls, sent, evs) =
     send_loop e m rest
       (if send_ok e (sock cl) m
        then (AList.update ra (cl\<lparr>last_sent := now e\<rparr>) cls, sent + wire_len m, evs @ [SendOk (sock cl) m])
        else (AList.delete ra cls, sent, evs @ [SendFail (sock cl) m]))"

subsection \<open>One round on a resolved endpoint (lines 157--233)\<close>

text \<open>Lines 157--162.\<close>

definition accept_conn ::
  "env \<Rightarrow> config \<Rightarrow> (raddr \<times> client) list \<Rightarrow> exn + ((raddr \<times> client) list \<times> event list)" where
  "accept_conn e cfg cls =
     (case pending e of
        NoConn \<Rightarrow> Inr (cls, [])
      | AcceptRaises \<Rightarrow> Inl OSError
      | Conn s ra \<Rightarrow>
          Inr (AList.update ra \<lparr>sock = s, chan = default_chan cfg, quality = default_quality cfg,
                 delay = Fin (default_delay cfg), last_sent = 0, headers_sent = False\<rparr> cls,
               [Accepted s ra]))"

text \<open>How the \<^verbatim>\<open>try\<close> block was left: by one of its \<^verbatim>\<open>return\<close> statements, by reaching its
  end, or by an exception.\<close>

datatype exit = Early | Fell | Exc exn

text \<open>The round on the endpoint tuple, for a frame that is not \<^verbatim>\<open>None\<close>: the exit, \<^verbatim>\<open>ret\<close>,
  \<^verbatim>\<open>sent\<close>, the endpoint as mutated so far, and the events.\<close>

definition broadcast ::
  "env \<Rightarrow> config \<Rightarrow> frame \<Rightarrow> string \<Rightarrow> endpoint
     \<Rightarrow> exit \<times> raddr list \<times> nat \<times> endpoint \<times> event list" where
  "broadcast e cfg f channel ep =
     (case accept_conn e cfg (clients ep) of
        Inl ex \<Rightarrow> (Exc ex, [], 0, ep, [])
      | Inr (cls0, ev0) \<Rightarrow>
          if cls0 = [] then (Early, [], 0, ep\<lparr>clients := cls0\<rparr>, ev0)
          else
            (case requests_loop e cfg (last_times ep) cls0 (cls0, 0, ev0) of
               (cls1, sent1, ev1) \<Rightarrow>
                 if receivers e channel cls1 = []
                 then (Early, map fst cls0, sent1, ep\<lparr>clients := cls1\<rparr>, ev1)
                 else
                   (case map_of (last_times ep) channel of
                      None \<Rightarrow> (Exc KeyError, map fst cls0, sent1, ep\<lparr>clients := cls1\<rparr>, ev1)
                    | Some t \<Rightarrow>
                        if now e - t < min_delay cfg
                        then (Early, map fst cls0, sent1, ep\<lparr>clients := cls1\<rparr>, ev1)
                        else
                          (case jpeg_compress e f
                                  (max_list (map (\<lambda>(a, cl). quality cl) (receivers e channel cls1))) of
                             None \<Rightarrow>
                               (Exc EncoderError, map fst cls0, sent1, ep\<lparr>clients := cls1\<rparr>,
                                ev1 @ [Encode f (max_list (map (\<lambda>(a, cl). quality cl)
                                                     (receivers e channel cls1)))])
                           | Some frame_jpeg \<Rightarrow>
                               (case send_loop e (FrameChunk (headers cfg) frame_jpeg)
                                       (receivers e channel cls1)
                                       (cls1, sent1,
                                        ev1 @ [Encode f (max_list (map (\<lambda>(a, cl). quality cl)
                                                             (receivers e channel cls1)))]) of
                                  (cls2, sent2, ev2) \<Rightarrow>
                                    (Fell, map fst cls0, sent2,
                                     ep\<lparr>clients := cls2,
                                        last_times := AList.update channel (now e) (last_times ep)\<rparr>,
                                     ev2))))))"

subsection \<open>Locks and the entry point\<close>

text \<open>\<^verbatim>\<open>Lock.release()\<close> raises \<^verbatim>\<open>RuntimeError\<close> on a lock that is not held; \<^verbatim>\<open>Lock.acquire()\<close>
  on a held lock never returns in a sequential run (outcome \<open>Blocks\<close>).\<close>

definition release :: "nat \<Rightarrow> globals \<Rightarrow> exn + globals" where
  "release l g = (if locks g l then Inr (g\<lparr>locks := (locks g)(l := False)\<rparr>) else Inl RuntimeError)"

definition release_SERVERS_LOCK :: "globals \<Rightarrow> exn + globals" where
  "release_SERVERS_LOCK g = (if SERVERS_LOCK g then Inr (g\<lparr>SERVERS_LOCK := False\<rparr>) else Inl RuntimeError)"

text \<open>Lines 237--240, for the local variable \<^verbatim>\<open>lock\<close> (\<open>None\<close> or a lock object). The
  \<^verbatim>\<open>return\<close> statements of lines 164--166 and 207--209 release the same two locks in the
  same order; a \<^verbatim>\<open>RuntimeError\<close> there would be caught and raised again by line 238, with
  the same final state, so they are modelled by this function as well.\<close>

definition finish ::
  "nat option \<Rightarrow> raddr list \<Rightarrow> nat \<Rightarrow> globals \<Rightarrow> event list \<Rightarrow> outcome \<times> globals \<times> event list" where
  "finish l ret sent g evs =
     (case (case l of None \<Rightarrow> Inr g | Some i \<Rightarrow> release i g) of
        Inl ex \<Rightarrow> (Raises ex, g, evs)
      | Inr g' \<Rightarrow>
          (case release_SERVERS_LOCK g' of
             Inl ex \<Rightarrow> (Raises ex, g', evs)
           | Inr g'' \<Rightarrow> (Returns ret sent, g'', evs)))"

text \<open>Lines 136--142: the endpoint of \<^verbatim>\<open>local_address\<close>, created when absent.\<close>

definition get_or_create :: "env \<Rightarrow> laddr \<Rightarrow> globals \<Rightarrow> exn + (endpoint \<times> globals \<times> event list)" where
  "get_or_create e a g =
     (case map_of (SERVERS g) a of
        Some ep \<Rightarrow> Inr (ep, g, [])
      | None \<Rightarrow>
         (case listen e of
            None \<Rightarrow> Inl OSError
          | Some s \<Rightarrow>
              Inr (\<lparr>lock = lock_count g, server = s, last_times = [], clients = []\<rparr>,
                   g\<lparr>SERVERS := AList.update a
                        \<lparr>lock = lock_count g, server = s, last_times = [], clients = []\<rparr> (SERVERS g),
                     locks := (locks g)(lock_count g := False),
                     lock_count := Suc (lock_count g)\<rparr>,
                   [Listen a s])))"

text \<open>Lines 146--147.\<close>

definition touch_channel :: "env \<Rightarrow> string \<Rightarrow> endpoint \<Rightarrow> endpoint" where
  "touch_channel e channel ep =
     (case map_of (last_times ep) channel of
        None \<Rightarrow> ep\<lparr>last_times := AList.update channel (now e - 1) (last_times ep)\<rparr>
      | Some t \<Rightarrow> ep)"

definition store :: "laddr \<Rightarrow> endpoint \<Rightarrow> globals \<Rightarrow> globals" where
  "store a ep g = g\<lparr>SERVERS := AList.update a ep (SERVERS g)\<rparr>"

text \<open>Lines 148--156. The loop of line 149 unpacks each six-field client tuple into five
  names, which raises \<^verbatim>\<open>ValueError\<close> at the first client, before anything is closed.\<close>

definition teardown :: "laddr \<Rightarrow> endpoint \<Rightarrow> globals \<Rightarrow> event list \<Rightarrow> outcome \<times> globals \<times> event list" where
  "teardown a ep g evs =
     (if clients ep \<noteq> [] then finish (Some (lock ep)) [] 0 g evs
      else
        (case release (lock ep) g of
           Inl ex \<Rightarrow> finish (Some (lock ep)) [] 0 g (evs @ [Close (server ep)])
         | Inr g' \<Rightarrow>
             (case release_SERVERS_LOCK (g'\<lparr>SERVERS := AList.delete a (SERVERS g')\<rparr>) of
                Inl ex \<Rightarrow> finish (Some (lock ep)) [] 0 (g'\<lparr>SERVERS := AList.delete a (SERVERS g')\<rparr>)
                           (evs @ [Close (server ep)])
              | Inr g'' \<Rightarrow> (Returns [] 0, g'', evs @ [Close (server ep)]))))"

text \<open>\<^verbatim>\<open>handle_frame\<close>. Every exception raised between lines 132 and 233 is an \<^verbatim>\<open>Exception\<close>
  and is swallowed by line 234; control then reaches lines 237--240.\<close>

definition handle_frame ::
  "env \<Rightarrow> config \<Rightarrow> frame option \<Rightarrow> string \<Rightarrow> string \<Rightarrow> nat \<Rightarrow> globals
     \<Rightarrow> outcome \<times> globals \<times> event list" where
  "handle_frame e cfg frame channel ip port g =
     (if SERVERS_LOCK g then (Blocks, g, [])
      else
        (case get_or_create e (ip, port) (g\<lparr>SERVERS_LOCK := True\<rparr>) of
           Inl ex \<Rightarrow> finish None [] 0 (g\<lparr>SERVERS_LOCK := True\<rparr>) []
         | Inr (ep, g1, ev1) \<Rightarrow>
             if locks g1 (lock ep) then (Blocks, g1, ev1)
             else
               (case frame of
                  None \<Rightarrow>
                    teardown (ip, port) (touch_channel e channel ep)
                      (store (ip, port) (touch_channel e channel ep)
                         (g1\<lparr>locks := (locks g1)(lock ep := True)\<rparr>)) ev1
                | Some f \<Rightarrow>
                    (case broadcast e cfg f channel (touch_channel e channel ep) of
                       (x, ret, sent, ep', ev2) \<Rightarrow>
                         finish (Some (lock ep)) ret sent
                           (store (ip, port) ep' (g1\<lparr>locks := (locks g1)(lock ep := True)\<rparr>))
                           (ev1 @ ev2)))))"

subsection \<open>Observations on a call\<close>

text \<open>A frame chunk handed to \<^verbatim>\<open>send\<close> (whether or not the call raised), and an
  invocation of the encoder.\<close>

fun is_chunk :: "event \<Rightarrow> bool" where
  "is_chunk (SendOk s (FrameChunk hs j)) = True"
| "is_chunk (SendFail s (FrameChunk hs j)) = True"
| "is_chunk ev = False"

fun is_encode :: "event \<Rightarrow> bool" where
  "is_encode (Encode f q) = True"
| "is_encode ev = False"

text \<open>Any message handed to \<^verbatim>\<open>send\<close> on socket \<open>s\<close>.\<close>

fun is_send_to :: "sock \<Rightarrow> event \<Rightarrow> bool" where
  "is_send_to s (SendOk s' m) = (s' = s)"
| "is_send_to s (SendFail s' m) = (s' = s)"
| "is_send_to s ev = False"

text \<open>The event of one \<^verbatim>\<open>send\<close> call.\<close>

definition send_event :: "env \<Rightarrow> message \<Rightarrow> sock \<Rightarrow> event" where
  "send_event e m s = (if send_ok e s m then SendOk s m else SendFail s m)"

text \<open>The endpoint tuple the call works on after lines 136--147 (\<open>None\<close>: bind or listen
  raised), and the client table at line 204, when the receivers are computed.\<close>

definition resolve :: "env \<Rightarrow> string \<Rightarrow> laddr \<Rightarrow> globals \<Rightarrow> endpoint option" where
  "resolve e channel a g =
     (case get_or_create e a (g\<lparr>SERVERS_LOCK := True\<rparr>) of
        Inl ex \<Rightarrow> None
      | Inr (ep, g1, ev1) \<Rightarrow> Some (touch_channel e channel ep))"

definition polled :: "env \<Rightarrow> config \<Rightarrow> endpoint \<Rightarrow> (raddr \<times> client) list" where
  "polled e cfg ep =
     (case accept_conn e cfg (clients ep) of
        Inl ex \<Rightarrow> []
      | Inr (cls0, ev0) \<Rightarrow> fst (requests_loop e cfg (last_times ep) cls0 (cls0, 0, ev0)))"

text \<open>The events of the request loop over a snapshot, and of the fan-out.\<close>

definition request_events ::
  "env \<Rightarrow> config \<Rightarrow> (string \<times> rat) list \<Rightarrow> (raddr \<times> client) list \<Rightarrow> event list" where
  "request_events e cfg lt snap =
     concat (map (\<lambda>(ra, cl). if readable e (sock cl)
                     then snd (snd (handle_request e cfg lt cl)) else []) snap)"

definition chunk_events :: "env \<Rightarrow> message \<Rightarrow> (raddr \<times> client) list \<Rightarrow> event list" where
  "chunk_events e m rcv = map (\<lambda>(ra, cl). send_event e m (sock cl)) rcv"

text \<open>The round passes the test of line 206: there are receivers and the channel's last
  broadcast is at least \<^verbatim>\<open>min_delay\<close> old.\<close>

definition send_due :: "env \<Rightarrow> config \<Rightarrow> string \<Rightarrow> endpoint \<Rightarrow> bool" where
  "send_due e cfg channel ep \<longleftrightarrow>
     receivers e channel (polled e cfg ep) \<noteq> []
     \<and> (case map_of (last_times ep) channel of
          None \<Rightarrow> False
        | Some t \<Rightarrow> min_delay cfg \<le> now e - t)"

text \<open>The quality handed to the encoder (line 211).\<close>

definition encode_quality :: "env \<Rightarrow> config \<Rightarrow> string \<Rightarrow> endpoint \<Rightarrow> int" where
  "encode_quality e cfg channel ep =
     max_list (map (\<lambda>(a, cl). quality cl) (receivers e channel (polled e cfg ep)))"

text \<open>One call of the entry point, the state it leaves and the events it causes.\<close>

record call =
  c_env :: env
  c_cfg :: config
  c_frame :: "frame option"
  c_channel :: string
  c_ip :: string
  c_port :: nat

definition run_call :: "call \<Rightarrow> globals \<Rightarrow> outcome \<times> globals \<times> event list" where
  "run_call c g = handle_frame (c_env c) (c_cfg c) (c_frame c) (c_channel c) (c_ip c) (c_port c) g"

definition step :: "call \<Rightarrow> globals \<Rightarrow> globals" where
  "step c g = fst (snd (run_call c g))"

definition emits :: "call \<Rightarrow> globals \<Rightarrow> event list" where
  "emits c g = snd (snd (run_call c g))"

text \<open>\<^verbatim>\<open>last_times[channel]\<close> of the endpoint registered for an address, if any.\<close>

definition last_broadcast :: "globals \<Rightarrow> laddr \<Rightarrow> string \<Rightarrow> rat option" where
  "last_broadcast g a channel =
     (case map_of (SERVERS g) a of None \<Rightarrow> None | Some ep \<Rightarrow> map_of (last_times ep) channel)"

text \<open>A call that is the shutdown sentinel for address \<open>a\<close>.\<close>

definition is_shutdown_of :: "laddr \<Rightarrow> call \<Rightarrow> bool" where
  "is_shutdown_of a c \<longleftrightarrow> c_frame c = None \<and> (c_ip c, c_port c) = a"

text \<open>The call hands at least one frame chunk to \<^verbatim>\<open>send\<close> (the \<^verbatim>\<open>send\<close> may raise).\<close>

definition sends_chunk :: "call \<Rightarrow> globals \<Rightarrow> bool" where
  "sends_chunk c g \<longleftrightarrow> list_ex is_chunk (emits c g)"



text \<open>A sequence of calls, threading the module state and collecting the events.\<close>

fun run :: "call list \<Rightarrow> globals \<times> event list \<Rightarrow> globals \<times> event list" where
  "run [] st = st"
| "run (c # cs) (g, tr) = run cs (step c g, tr @ emits c g)"

text \<open>A monitor for the order of messages on each socket: given the events \<open>T\<close> seen so
  far, every chunk in the list goes to a socket on which the stream header has been sent
  successfully before.\<close>

fun header_first :: "event set \<Rightarrow> event list \<Rightarrow> bool" where
  "header_first T [] = True"
| "header_first T (x # tr) =
     ((if is_chunk x then \<exists>s. is_send_to s x \<and> SendOk s StreamHeader \<in> T else True)
      \<and> header_first (insert x T) tr)"

text \<open>Every stored client record whose \<open>headers_sent\<close> flag is set belongs to a socket on
  which the stream header has been sent successfully.\<close>

definition headers_logged :: "event set \<Rightarrow> globals \<Rightarrow> bool" where
  "headers_logged T g \<longleftrightarrow>
     (\<forall>(a, ep) \<in> set (SERVERS g). \<forall>(ra, cl) \<in> set (clients ep).
        headers_sent cl \<longrightarrow> SendOk (sock cl) StreamHeader \<in> T)"

subsection \<open>Concrete inputs\<close>

text \<open>The module state right after import, an environment in which nothing is pending
  and every external call succeeds, and a state with one endpoint and one streaming
  client.\<close>

definition init_globals :: globals where
  "init_globals = \<lparr>SERVERS = [], SERVERS_LOCK = False, locks = (\<lambda>l. False), lock_count = 0\<rparr>"

definition idle_env :: env where
  "idle_env = \<lparr>now = 100, listen = Some 7, pending = NoConn, readable = (\<lambda>s. False),
     recv = (\<lambda>s. RecvRaises), send_ok = (\<lambda>s m. True),
     jpeg_compress_qimage = (\<lambda>px q. Some ''JPEG''), jpeg_compress_numpy = (\<lambda>px q. Some ''JPEG'')\<rparr>"

definition viewer :: client where
  "viewer = \<lparr>sock = 8, chan = Some ''0'', quality = 50, delay = Fin (1 / 50), last_sent = 0,
     headers_sent = True\<rparr>"

definition streaming_endpoint :: endpoint where
  "streaming_endpoint = \<lparr>lock = 0, server = 7, last_times = [(''0'', 99)],
     clients = [((''10.0.0.1'', 5000), viewer)]\<rparr>"

definition streaming_globals :: globals where
  "streaming_globals =
     \<lparr>SERVERS = [(([], 8080), streaming_endpoint)],
      SERVERS_LOCK = False, locks = (\<lambda>l. False), lock_count = 1\<rparr>"

text \<open>Three calls on the endpoint of \<open>streaming_globals\<close>: a frame on channel \<^verbatim>\<open>"0"\<close> at
  time 100, a frame on channel \<^verbatim>\<open>"1"\<close> at the same time, and a frame on channel \<^verbatim>\<open>"0"\<close>
  five milliseconds later.\<close>

definition frame_call :: "rat \<Rightarrow> string \<Rightarrow> call" where
  "frame_call t channel = \<lparr>c_env = idle_env\<lparr>now := t\<rparr>, c_cfg = default_config,
     c_frame = Some (ArrayFrame []), c_channel = channel, c_ip = [], c_port = 8080\<rparr>"

text \<open>The same call as \<open>frame_call\<close> with an encoder backend that raises.\<close>

definition failing_encoder_env :: env where
  "failing_encoder_env = idle_env\<lparr>jpeg_compress_numpy := (\<lambda>px q. None)\<rparr>"

definition failing_encoder_call :: "rat \<Rightarrow> string \<Rightarrow> call" where
  "failing_encoder_call t channel = (frame_call t channel)\<lparr>c_env := failing_encoder_env\<lparr>now := t\<rparr>\<rparr>"

text \<open>The shutdown sentinel for the same address, and an environment in which bind or
  listen raises.\<close>

definition shutdown_call :: call where
  "shutdown_call = \<lparr>c_env = idle_env, c_cfg = default_config, c_frame = None, c_channel = [],
     c_ip = [], c_port = 8080\<rparr>"

definition bind_fails_env :: env where
  "bind_fails_env = idle_env\<lparr>listen := None\<rparr>"

text \<open>A client record as line 162 stores it under \<open>default_config\<close> with
  \<^verbatim>\<open>default_quality=100\<close>, an environment in which every socket is readable and delivers
  the given text, and the call of a frame on channel \<^verbatim>\<open>"0"\<close> in that environment.\<close>

definition accepted_client :: client where
  "accepted_client = \<lparr>sock = 8, chan = Some [], quality = 100, delay = Fin (4 / 100),
     last_sent = 0, headers_sent = False\<rparr>"

definition request_env :: "string \<Rightarrow> env" where
  "request_env d = idle_env\<lparr>readable := (\<lambda>s. True), recv := (\<lambda>s. Data d)\<rparr>"

definition request_call :: "string \<Rightarrow> call" where
  "request_call d = (frame_call 100 ''0'')\<lparr>c_env := request_env d\<rparr>"

text \<open>A first call on channel \<^verbatim>\<open>""\<close> during which a client connects and its request is
  already readable.\<close>

definition connect_call :: "string \<Rightarrow> call" where
  "connect_call d =
     (frame_call 100 [])\<lparr>c_env := (request_env d)\<lparr>pending := Conn 8 (''10.0.0.1'', 5000)\<rparr>\<rparr>"

text \<open>Further calls on the same endpoint at time \<open>t\<close>: a frame on channel \<^verbatim>\<open>"0"\<close> while every
  client socket delivers an empty read; the shutdown sentinel; a frame on channel \<^verbatim>\<open>"0"\<close>
  while a second client connects whose request for that channel is already readable (no
  other socket is readable); and a frame on channel \<^verbatim>\<open>"0"\<close> while every \<^verbatim>\<open>send\<close> raises.\<close>

definition drop_call :: "rat \<Rightarrow> call" where
  "drop_call t =
     (frame_call t ''0'')\<lparr>c_env := idle_env\<lparr>now := t, readable := (\<lambda>s. True), recv := (\<lambda>s. Data [])\<rparr>\<rparr>"

definition shutdown_at :: "rat \<Rightarrow> call" where
  "shutdown_at t = shutdown_call\<lparr>c_env := idle_env\<lparr>now := t\<rparr>\<rparr>"

definition join_env :: "rat \<Rightarrow> env" where
  "join_env t = idle_env\<lparr>now := t, pending := Conn 9 (''10.0.0.2'', 5001),
     readable := (\<lambda>s. s = 9), recv := (\<lambda>s. Data ''GET /?channel=0 HTTP/1.0'')\<rparr>"

definition join_call :: "rat \<Rightarrow> call" where
  "join_call t = (frame_call t ''0'')\<lparr>c_env := join_env t\<rparr>"

definition send_fails_call :: "rat \<Rightarrow> call" where
  "send_fails_call t = (frame_call t ''0'')\<lparr>c_env := idle_env\<lparr>now := t, send_ok := (\<lambda>s m. False)\<rparr>\<rparr>"

text \<open>A state with two streaming clients of different qualities on channel \<^verbatim>\<open>"0"\<close>.\<close>

definition viewer2 :: client where
  "viewer2 = \<lparr>sock = 9, chan = Some ''0'', quality = 70, delay = Fin (1 / 50), last_sent = 0,
     headers_sent = True\<rparr>"

definition two_viewers_endpoint :: endpoint where
  "two_viewers_endpoint = \<lparr>lock = 0, server = 7, last_times = [(''0'', 99)],
     clients = [((''10.0.0.1'', 5000), viewer), ((''10.0.0.2'', 5001), viewer2)]\<rparr>"

definition two_viewers_globals :: globals where
  "two_viewers_globals =
     \<lparr>SERVERS = [(([], 8080), two_viewers_endpoint)],
      SERVERS_LOCK = False, locks = (\<lambda>l. False), lock_count = 1\<rparr>"

section \<open>Properties\<close>

text \<open>The scanners are evaluated on concrete text by their code equations only.\<close>

declare GET_RE_findall.simps [simp del] PARAM_RE_findall.simps [simp del] str_nat.simps [simp del]

text \<open>The definitions to unfold when a call is evaluated on a concrete input.\<close>

lemmas model_defs =
  emits_def step_def run_call_def handle_frame_def get_or_create_def touch_channel_def store_def
  broadcast_def accept_conn_def receivers_def jpeg_compress_def finish_def release_def
  release_SERVERS_LOCK_def teardown_def sends_chunk_def

lemmas input_defs =
  frame_call_def failing_encoder_call_def streaming_globals_def init_globals_def idle_env_def
  viewer_def default_config_def shutdown_call_def bind_fails_env_def streaming_endpoint_def
  failing_encoder_env_def accepted_client_def request_env_def request_call_def connect_call_def
  drop_call_def shutdown_at_def join_env_def join_call_def send_fails_call_def viewer2_def
  two_viewers_endpoint_def two_viewers_globals_def

text \<open>The definitions to unfold when a request is scanned.\<close>

lemmas parse_defs =
  handle_request_def index_request_def negotiate_def dict_get_def

lemma wire_len_header: "wire_len StreamHeader = 105"
  by code_simp

lemma scan_plain_get:
  "GET_RE_findall ''GET / HTTP/1.0'' = [[]]" "PARAM_RE_findall ''GET / HTTP/1.0'' = []"
  by code_simp+

lemma scan_quality_delay:
  "GET_RE_findall ''GET /?quality=10&delay=500 HTTP/1.0'' = [''?quality=10&delay=500'']"
  "PARAM_RE_findall ''GET /?quality=10&delay=500 HTTP/1.0''
     = [(''quality'', ''10''), (''delay'', ''500'')]"
  by code_simp+



lemma scan_channel:
  "GET_RE_findall ''GET /?channel=0 HTTP/1.0'' = [''?channel=0'']"
  "PARAM_RE_findall ''GET /?channel=0 HTTP/1.0'' = [(''channel'', ''0'')]"
  by code_simp+

lemma scan_numbers:
  "py_int ''10'' = Some 10" "py_float ''500'' = Some (Fin 500)" "py_int ''high'' = None"
  by code_simp+

text \<open>Everything needed to evaluate a whole call on a concrete input.\<close>

lemmas eval_defs = model_defs parse_defs Let_def scan_channel scan_numbers wire_len_header input_defs

subsection \<open>Events of the loops and of the round\<close>

lemma requests_loop_events:
  "snd (snd (requests_loop e cfg lt snap (cls, sent, evs))) = evs @ request_events e cfg lt snap"
proof (induction snap arbitrary: cls sent evs)
  case Nil
  show ?case by (simp add: request_events_def)
next
  case (Cons p snap)
  obtain ra cl where p: "p = (ra, cl)" by (cases p)
  obtain r n ev where h: "handle_request e cfg lt cl = (r, n, ev)"
    by (cases "handle_request e cfg lt cl")
  show ?case
    using Cons.IH by (cases r) (simp_all add: p h request_events_def)
qed

lemma send_loop_events:
  "snd (snd (send_loop e m rcv (cls, sent, evs))) = evs @ chunk_events e m rcv"
proof (induction rcv arbitrary: cls sent evs)
  case Nil
  show ?case by (simp add: chunk_events_def)
next
  case (Cons p rcv)
  obtain ra cl where p: "p = (ra, cl)" by (cases p)
  show ?case
    using Cons.IH by (simp add: p chunk_events_def send_event_def)
qed

lemma handle_request_events:
  assumes "handle_request e cfg lt cl = (r, n, ev)" "x \<in> set ev"
  shows "\<not> is_chunk x \<and> \<not> is_encode x"
  using assms
  by (auto simp: handle_request_def Let_def split: recv_result.splits if_splits option.splits)

lemma request_events_plain:
  assumes "x \<in> set (request_events e cfg lt snap)"
  shows "\<not> is_chunk x \<and> \<not> is_encode x"
proof -
  from assms obtain ra cl where "(ra, cl) \<in> set snap" "readable e (sock cl)"
    "x \<in> set (snd (snd (handle_request e cfg lt cl)))"
    by (auto simp: request_events_def split: if_splits)
  then show ?thesis
    using handle_request_events [of e cfg lt cl "fst (handle_request e cfg lt cl)"
      "fst (snd (handle_request e cfg lt cl))" "snd (snd (handle_request e cfg lt cl))" x]
    by simp
qed

lemma filter_request_events [simp]:
  "filter is_chunk (request_events e cfg lt snap) = []"
  "filter is_encode (request_events e cfg lt snap) = []"
  using request_events_plain [of _ e cfg lt snap] by (auto simp: filter_empty_conv)

lemma filter_chunk_events [simp]:
  "filter is_chunk (chunk_events e (FrameChunk hs j) rcv) = chunk_events e (FrameChunk hs j) rcv"
  "filter is_encode (chunk_events e m rcv) = []"
  by (auto simp: chunk_events_def send_event_def filter_empty_conv filter_id_conv split: if_splits)

lemma accept_conn_events:
  "accept_conn e cfg cls = Inr (cls0, ev0) \<Longrightarrow> filter is_chunk ev0 = [] \<and> filter is_encode ev0 = []"
  by (auto simp: accept_conn_def split: accept_result.splits)

text \<open>The round, by cases on the test of line 206.\<close>

lemma broadcast_closed:
  assumes "\<not> send_due e cfg channel ep"
    and "broadcast e cfg f channel ep = (x, ret, sent, ep', evs)"
  shows "filter is_chunk evs = [] \<and> filter is_encode evs = []
         \<and> last_times ep' = last_times ep \<and> x \<noteq> Fell"
proof (cases "accept_conn e cfg (clients ep)")
  case (Inl ex)
  then show ?thesis using assms(2) by (auto simp: broadcast_def)
next
  case (Inr r)
  obtain cls0 ev0 where r: "r = (cls0, ev0)" by (cases r)
  obtain cls1 sent1 ev1 where
    rl: "requests_loop e cfg (last_times ep) cls0 (cls0, 0, ev0) = (cls1, sent1, ev1)"
    by (cases "requests_loop e cfg (last_times ep) cls0 (cls0, 0, ev0)")
  have ev1: "ev1 = ev0 @ request_events e cfg (last_times ep) cls0"
    using requests_loop_events [of e cfg "last_times ep" cls0 cls0 0 ev0] rl by simp
  have p: "polled e cfg ep = cls1"
    by (simp add: polled_def Inr r rl)
  have ev0: "filter is_chunk ev0 = [] \<and> filter is_encode ev0 = []"
    using accept_conn_events Inr r by blast
  show ?thesis
    using assms Inr r rl ev1 ev0 p
    by (auto simp: broadcast_def send_due_def split: if_splits option.splits)
qed

lemma broadcast_open:
  assumes "send_due e cfg channel ep"
    and "broadcast e cfg f channel ep = (x, ret, sent, ep', evs)"
  shows "filter is_encode evs = [Encode f (encode_quality e cfg channel ep)]
         \<and> (case jpeg_compress e f (encode_quality e cfg channel ep) of
              None \<Rightarrow> filter is_chunk evs = [] \<and> x = Exc EncoderError
                       \<and> ep' = ep\<lparr>clients := polled e cfg ep\<rparr>
            | Some j \<Rightarrow> filter is_chunk evs
                         = chunk_events e (FrameChunk (headers cfg) j)
                             (receivers e channel (polled e cfg ep))
                       \<and> x = Fell
                       \<and> last_times ep' = AList.update channel (now e) (last_times ep))"
proof (cases "accept_conn e cfg (clients ep)")
  case (Inl ex)
  then show ?thesis using assms(1) by (auto simp: send_due_def polled_def receivers_def)
next
  case (Inr r)
  obtain cls0 ev0 where r: "r = (cls0, ev0)" by (cases r)
  obtain cls1 sent1 ev1 where
    rl: "requests_loop e cfg (last_times ep) cls0 (cls0, 0, ev0) = (cls1, sent1, ev1)"
    by (cases "requests_loop e cfg (last_times ep) cls0 (cls0, 0, ev0)")
  have ev1: "ev1 = ev0 @ request_events e cfg (last_times ep) cls0"
    using requests_loop_events [of e cfg "last_times ep" cls0 cls0 0 ev0] rl by simp
  have p: "polled e cfg ep = cls1"
    by (simp add: polled_def Inr r rl)
  have ev0: "filter is_chunk ev0 = [] \<and> filter is_encode ev0 = []"
    using accept_conn_events Inr r by blast
  have ne: "cls0 \<noteq> []"
    using assms(1) p rl by (auto simp: send_due_def receivers_def)
  let ?q = "encode_quality e cfg channel ep"
  show ?thesis
  proof (cases "jpeg_compress e f ?q")
    case None
    then show ?thesis
      using assms Inr r rl ev1 ev0 p ne
      by (auto simp: broadcast_def send_due_def encode_quality_def split: if_splits option.splits)
  next
    case (Some j)
    obtain cls2 sent2 ev2 where
      sl: "send_loop e (FrameChunk (headers cfg) j) (receivers e channel cls1)
             (cls1, sent1, ev1 @ [Encode f ?q]) = (cls2, sent2, ev2)"
      by (cases "send_loop e (FrameChunk (headers cfg) j) (receivers e channel cls1)
             (cls1, sent1, ev1 @ [Encode f ?q])")
    have ev2: "ev2 = (ev1 @ [Encode f ?q])
                 @ chunk_events e (FrameChunk (headers cfg) j) (receivers e channel cls1)"
      using send_loop_events [of e "FrameChunk (headers cfg) j" "receivers e channel cls1"
          cls1 sent1 "ev1 @ [Encode f ?q]"] sl by simp
    show ?thesis
      using assms Inr r rl ev1 ev0 p ne Some sl ev2
      by (auto simp: broadcast_def send_due_def encode_quality_def split: if_splits option.splits)
  qed
qed

subsection \<open>Locks and exits\<close>

lemma finish_held:
  "locks g l \<Longrightarrow> SERVERS_LOCK g \<Longrightarrow>
   finish (Some l) ret sent g evs
     = (Returns ret sent, g\<lparr>locks := (locks g)(l := False), SERVERS_LOCK := False\<rparr>, evs)"
  by (simp add: finish_def release_def release_SERVERS_LOCK_def)

lemma finish_None:
  "SERVERS_LOCK g \<Longrightarrow> finish None ret sent g evs = (Returns ret sent, g\<lparr>SERVERS_LOCK := False\<rparr>, evs)"
  by (simp add: finish_def release_SERVERS_LOCK_def)

lemma store_fields [simp]:
  "locks (store a ep g) = locks g" "SERVERS_LOCK (store a ep g) = SERVERS_LOCK g"
  "lock_count (store a ep g) = lock_count g" "SERVERS (store a ep g) = AList.update a ep (SERVERS g)"
  by (simp_all add: store_def)

lemma touch_channel_fields [simp]:
  "lock (touch_channel e c ep) = lock ep" "server (touch_channel e c ep) = server ep"
  "clients (touch_channel e c ep) = clients ep"
  by (simp_all add: touch_channel_def split: option.splits)

lemma get_or_create_fields:
  assumes "get_or_create e a g = Inr (ep, g1, ev1)"
  shows "SERVERS_LOCK g1 = SERVERS_LOCK g"
    and "map_of (SERVERS g1) a = Some ep"
    and "locks g1 l \<Longrightarrow> locks g l"
    and "map_of (SERVERS g) a = None \<Longrightarrow> \<not> locks g1 (lock ep)"
    and "map_of (SERVERS g) a = Some ep0 \<Longrightarrow> ep = ep0 \<and> g1 = g \<and> ev1 = []"
  using assms
  by (auto simp: get_or_create_def update_Some_unfold split: option.splits if_splits)


lemma finish_frame [simp]:
  "SERVERS (fst (snd (finish l ret sent g evs))) = SERVERS g"
  "snd (snd (finish l ret sent g evs)) = evs"
  by (auto simp: finish_def release_def release_SERVERS_LOCK_def split: option.splits)

lemma teardown_events:
  "filter is_chunk (snd (snd (teardown a ep g evs))) = filter is_chunk evs"
  "filter is_encode (snd (snd (teardown a ep g evs))) = filter is_encode evs"
  by (auto simp: teardown_def release_def release_SERVERS_LOCK_def)

lemma get_or_create_events:
  "get_or_create e a g = Inr (ep, g1, ev1) \<Longrightarrow> filter is_chunk ev1 = [] \<and> filter is_encode ev1 = []"
  by (auto simp: get_or_create_def split: option.splits)

lemma get_or_create_other:
  "get_or_create e a g = Inr (ep, g1, ev1) \<Longrightarrow> a' \<noteq> a \<Longrightarrow> map_of (SERVERS g1) a' = map_of (SERVERS g) a'"
  by (auto simp: get_or_create_def update_conv' split: option.splits)

text \<open>What a call with a frame does, when it is not blocked and the endpoint resolves.\<close>

lemma handle_frame_served:
  assumes "\<not> SERVERS_LOCK g"
    and "get_or_create e (ip, port) (g\<lparr>SERVERS_LOCK := True\<rparr>) = Inr (ep, g1, ev1)"
    and "\<not> locks g1 (lock ep)"
    and "broadcast e cfg f channel (touch_channel e channel ep) = (x, ret, sent, ep', ev2)"
  shows "handle_frame e cfg (Some f) channel ip port g
         = (Returns ret sent,
            g1\<lparr>SERVERS := AList.update (ip, port) ep' (SERVERS g1),
               locks := (locks g1)(lock ep := False), SERVERS_LOCK := False\<rparr>,
            ev1 @ ev2)"
proof -
  have "SERVERS_LOCK g1" using get_or_create_fields(1) [OF assms(2)] by simp
  then show ?thesis
    using assms by (simp add: handle_frame_def finish_held store_def)
qed

text \<open>A call emits chunk or encoder events only when it is served.\<close>

lemma handle_frame_chunk_served:
  assumes "filter is_chunk (snd (snd (handle_frame e cfg frame channel ip port g))) \<noteq> []
           \<or> filter is_encode (snd (snd (handle_frame e cfg frame channel ip port g))) \<noteq> []"
  shows "\<exists>f ep g1 ev1. frame = Some f \<and> \<not> SERVERS_LOCK g
           \<and> get_or_create e (ip, port) (g\<lparr>SERVERS_LOCK := True\<rparr>) = Inr (ep, g1, ev1)
           \<and> \<not> locks g1 (lock ep)"
proof -
  have "\<not> SERVERS_LOCK g"
    using assms by (auto simp: handle_frame_def)
  moreover obtain ep g1 ev1 where
    goc: "get_or_create e (ip, port) (g\<lparr>SERVERS_LOCK := True\<rparr>) = Inr (ep, g1, ev1)"
    using assms \<open>\<not> SERVERS_LOCK g\<close>
    by (cases "get_or_create e (ip, port) (g\<lparr>SERVERS_LOCK := True\<rparr>)")
       (auto simp: handle_frame_def)
  moreover have "\<not> locks g1 (lock ep)"
    using assms \<open>\<not> SERVERS_LOCK g\<close> goc get_or_create_events [OF goc]
    by (auto simp: handle_frame_def)
  moreover have "frame \<noteq> None"
    using assms \<open>\<not> SERVERS_LOCK g\<close> goc get_or_create_events [OF goc] \<open>\<not> locks g1 (lock ep)\<close>
    by (cases frame) (auto simp: handle_frame_def teardown_events)
  ultimately show ?thesis by auto
qed

subsection \<open>The per-channel rate limit\<close>

lemma broadcast_last_times:
  assumes "broadcast e cfg f channel ep = (x, ret, sent, ep', evs)"
  shows "last_times ep' = last_times ep
         \<or> last_times ep' = AList.update channel (now e) (last_times ep)"
proof (cases "send_due e cfg channel ep")
  case False
  then show ?thesis using broadcast_closed [OF False assms] by simp
next
  case True
  show ?thesis
    using broadcast_open [OF True assms]
    by (cases "jpeg_compress e f (encode_quality e cfg channel ep)") auto
qed

lemma touch_channel_lookup:
  "map_of (last_times ep) ch = Some l \<Longrightarrow> map_of (last_times (touch_channel e ch' ep)) ch = Some l"
  by (auto simp: touch_channel_def update_conv' split: option.splits)

lemma teardown_other:
  "a' \<noteq> a \<Longrightarrow> map_of (SERVERS (fst (snd (teardown a' ep g evs)))) a = map_of (SERVERS g) a"
  by (auto simp: teardown_def release_def release_SERVERS_LOCK_def delete_conv')

text \<open>A call that sends a chunk passed the test of line 206, and leaves \<^verbatim>\<open>last_times[channel] = now\<close>.\<close>

lemma chunk_was_due:
  assumes "filter is_chunk (snd (snd (handle_frame e cfg frame channel ip port g))) \<noteq> []"
  shows "\<exists>ep. resolve e channel (ip, port) g = Some ep \<and> send_due e cfg channel ep"
    and "last_broadcast (fst (snd (handle_frame e cfg frame channel ip port g))) (ip, port) channel
           = Some (now e)"
proof -
  from handle_frame_chunk_served [of e cfg frame channel ip port g] assms
  obtain f ep g1 ev1 where fr: "frame = Some f" and free: "\<not> SERVERS_LOCK g"
    and goc: "get_or_create e (ip, port) (g\<lparr>SERVERS_LOCK := True\<rparr>) = Inr (ep, g1, ev1)"
    and nl: "\<not> locks g1 (lock ep)"
    by blast
  obtain x ret sent ep' ev2 where
    b: "broadcast e cfg f channel (touch_channel e channel ep) = (x, ret, sent, ep', ev2)"
    by (cases "broadcast e cfg f channel (touch_channel e channel ep)") auto
  note hf = handle_frame_served [OF free goc nl b]
  have ch2: "filter is_chunk ev2 \<noteq> []"
    using assms hf fr get_or_create_events [OF goc] by simp
  have res: "resolve e channel (ip, port) g = Some (touch_channel e channel ep)"
    by (simp add: resolve_def goc)
  have go: "send_due e cfg channel (touch_channel e channel ep)"
    using broadcast_closed [OF _ b] ch2 by blast
  show "\<exists>ep. resolve e channel (ip, port) g = Some ep \<and> send_due e cfg channel ep"
    using res go by blast
  have "last_times ep' = AList.update channel (now e) (last_times (touch_channel e channel ep))"
    using broadcast_open [OF go b] ch2
    by (cases "jpeg_compress e f (encode_quality e cfg channel (touch_channel e channel ep))") auto
  then show "last_broadcast (fst (snd (handle_frame e cfg frame channel ip port g))) (ip, port) channel
           = Some (now e)"
    by (simp add: hf fr last_broadcast_def update_conv')
qed

text \<open>Once a channel has an entry, a call that is not the shutdown of its endpoint keeps
  the entry or sets it to its own time.\<close>

lemma last_broadcast_step:
  assumes lb: "last_broadcast g a ch = Some l"
    and ns: "\<not> (frame = None \<and> (ip, port) = a)"
  shows "last_broadcast (fst (snd (handle_frame e cfg frame channel ip port g))) a ch = Some l
         \<or> last_broadcast (fst (snd (handle_frame e cfg frame channel ip port g))) a ch = Some (now e)"
proof (cases "SERVERS_LOCK g")
  case True
  then show ?thesis using lb by (simp add: handle_frame_def)
next
  case free: False
  show ?thesis
  proof (cases "get_or_create e (ip, port) (g\<lparr>SERVERS_LOCK := True\<rparr>)")
    case (Inl ex)
    then show ?thesis using lb free by (simp add: handle_frame_def last_broadcast_def)
  next
    case (Inr r)
    obtain ep g1 ev1 where r: "r = (ep, g1, ev1)" by (cases r)
    note goc = Inr [unfolded r]
    have lb1: "last_broadcast g1 a ch = Some l"
    proof (cases "(ip, port) = a")
      case True
      then obtain ep0 where "map_of (SERVERS g) (ip, port) = Some ep0"
        using lb by (auto simp: last_broadcast_def split: option.splits)
      then have "g1 = g\<lparr>SERVERS_LOCK := True\<rparr>"
        using get_or_create_fields(5) [OF goc, of ep0] by simp
      then show ?thesis using lb by (simp add: last_broadcast_def)
    next
      case False
      then show ?thesis
        using get_or_create_other [OF goc, of a] lb by (simp add: last_broadcast_def)
    qed
    show ?thesis
    proof (cases "locks g1 (lock ep)")
      case True
      then show ?thesis using lb1 free goc by (simp add: handle_frame_def)
    next
      case nl: False
      show ?thesis
      proof (cases frame)
        case None
        then have neq: "(ip, port) \<noteq> a" using ns by simp
        then have neq': "a \<noteq> (ip, port)" by blast
        show ?thesis
          using lb1 free goc nl None teardown_other [OF neq]
          by (simp add: handle_frame_def last_broadcast_def update_conv' neq neq')
      next
        case (Some f)
        obtain x ret sent ep' ev2 where
          b: "broadcast e cfg f channel (touch_channel e channel ep) = (x, ret, sent, ep', ev2)"
          by (cases "broadcast e cfg f channel (touch_channel e channel ep)") auto
        note hf = handle_frame_served [OF free goc nl b]
        show ?thesis
        proof (cases "(ip, port) = a")
          case False
          then show ?thesis using lb1 by (simp add: hf Some last_broadcast_def update_conv')
        next
          case True
          have "map_of (SERVERS g1) a = Some ep"
            using get_or_create_fields(2) [OF goc] True by simp
          then have "map_of (last_times ep) ch = Some l"
            using lb1 by (simp add: last_broadcast_def)
          then have t: "map_of (last_times (touch_channel e channel ep)) ch = Some l"
            by (rule touch_channel_lookup)
          from broadcast_last_times [OF b]
          have "map_of (last_times ep') ch = Some l \<or> map_of (last_times ep') ch = Some (now e)"
            using t by (auto simp: update_conv')
          then show ?thesis
            using True by (simp add: hf Some last_broadcast_def update_conv')
        qed
      qed
    qed
  qed
qed

lemma sends_chunk_iff:
  "sends_chunk c g \<longleftrightarrow>
     filter is_chunk (snd (snd (handle_frame (c_env c) (c_cfg c) (c_frame c) (c_channel c)
        (c_ip c) (c_port c) g))) \<noteq> []"
  by (simp add: sends_chunk_def emits_def run_call_def list_ex_iff filter_empty_conv)

lemma last_broadcast_fold:
  assumes "last_broadcast g a ch = Some l" "t \<le> l"
    and "\<forall>k \<in> set mid. t \<le> now (c_env k) \<and> \<not> is_shutdown_of a k"
  shows "\<exists>l'. last_broadcast (fold step mid g) a ch = Some l' \<and> t \<le> l'"
  using assms
proof (induction mid arbitrary: g l)
  case Nil
  then show ?case by simp
next
  case (Cons k mid)
  have ns: "\<not> (c_frame k = None \<and> (c_ip k, c_port k) = a)"
    using Cons.prems(3) by (simp add: is_shutdown_of_def)
  from last_broadcast_step [OF Cons.prems(1) ns, of "c_env k" "c_cfg k" "c_channel k"]
  obtain l' where "last_broadcast (step k g) a ch = Some l'" "t \<le> l'"
    using Cons.prems(2,3) by (auto simp: step_def run_call_def)
  then show ?case
    using Cons.IH [of "step k g" l'] Cons.prems(3) by simp
qed

text \<open>
  C1 (amended). A call sends a frame chunk only if its receiver set (clients with
  \<open>headers_sent\<close>, the call's channel, and \<^verbatim>\<open>now - last_sent >= delay\<close>) is non-empty and
  \<^verbatim>\<open>now - last_times[channel] >= min_delay\<close>. Consequently, of two calls on the same
  endpoint and channel, the second less than its \<^verbatim>\<open>min_delay\<close> after the first, at most
  one sends a frame chunk, whatever calls come between them, as long as none of those is
  the shutdown of that endpoint and none carries a time before the first call's.
\<close>

theorem rate_limit:
  "(sends_chunk c1 g \<longrightarrow>
      (\<exists>ep t. resolve (c_env c1) (c_channel c1) (c_ip c1, c_port c1) g = Some ep
         \<and> receivers (c_env c1) (c_channel c1) (polled (c_env c1) (c_cfg c1) ep) \<noteq> []
         \<and> map_of (last_times ep) (c_channel c1) = Some t
         \<and> min_delay (c_cfg c1) \<le> now (c_env c1) - t))
   \<and> (sends_chunk c1 g
        \<and> c_ip c2 = c_ip c1 \<and> c_port c2 = c_port c1 \<and> c_channel c2 = c_channel c1
        \<and> now (c_env c2) - now (c_env c1) < min_delay (c_cfg c2)
        \<and> (\<forall>k \<in> set mid. now (c_env c1) \<le> now (c_env k)
                           \<and> \<not> is_shutdown_of (c_ip c1, c_port c1) k)
      \<longrightarrow> \<not> sends_chunk c2 (fold step mid (step c1 g)))"
proof (intro conjI impI)
  assume s: "sends_chunk c1 g"
  from chunk_was_due(1) [OF s [unfolded sends_chunk_iff]]
  show "\<exists>ep t. resolve (c_env c1) (c_channel c1) (c_ip c1, c_port c1) g = Some ep
         \<and> receivers (c_env c1) (c_channel c1) (polled (c_env c1) (c_cfg c1) ep) \<noteq> []
         \<and> map_of (last_times ep) (c_channel c1) = Some t
         \<and> min_delay (c_cfg c1) \<le> now (c_env c1) - t"
    by (auto simp: send_due_def split: option.splits)
next
  assume h: "sends_chunk c1 g
        \<and> c_ip c2 = c_ip c1 \<and> c_port c2 = c_port c1 \<and> c_channel c2 = c_channel c1
        \<and> now (c_env c2) - now (c_env c1) < min_delay (c_cfg c2)
        \<and> (\<forall>k \<in> set mid. now (c_env c1) \<le> now (c_env k)
                           \<and> \<not> is_shutdown_of (c_ip c1, c_port c1) k)"
  let ?a = "(c_ip c1, c_port c1)" and ?ch = "c_channel c1"
  let ?g = "fold step mid (step c1 g)"
  have "last_broadcast (step c1 g) ?a ?ch = Some (now (c_env c1))"
    using chunk_was_due(2) h by (simp add: sends_chunk_iff step_def run_call_def)
  from last_broadcast_fold [OF this order_refl, of mid] h
  obtain l where l: "last_broadcast ?g ?a ?ch = Some l" "now (c_env c1) \<le> l"
    by blast
  show "\<not> sends_chunk c2 ?g"
  proof
    assume "sends_chunk c2 ?g"
    from chunk_was_due(1) [OF this [unfolded sends_chunk_iff]]
    obtain ep where ep: "resolve (c_env c2) ?ch ?a ?g = Some ep"
      and go: "send_due (c_env c2) (c_cfg c2) ?ch ep"
      using h by auto
    obtain ep0 where ep0: "map_of (SERVERS ?g) ?a = Some ep0" "map_of (last_times ep0) ?ch = Some l"
      using l(1) by (auto simp: last_broadcast_def split: option.splits)
    have "ep = touch_channel (c_env c2) ?ch ep0"
      using ep ep0(1) by (simp add: resolve_def get_or_create_def)
    then have "map_of (last_times ep) ?ch = Some l"
      using ep0(2) by (simp add: touch_channel_def)
    then have "min_delay (c_cfg c2) \<le> now (c_env c2) - l"
      using go by (simp add: send_due_def)
    then show False using h l(2) by simp
  qed
qed

text \<open>The state in which the second call of the instance below runs, and its receivers:
  the client that joins during that call.\<close>

lemma second_call_has_receiver:
  "resolve (join_env (100 + 1 / 200)) ''0'' ([], 8080)
     (fold step [frame_call 100 ''1''] (step (frame_call 100 ''0'') streaming_globals))
   = Some \<lparr>lock = 0, server = 7, last_times = [(''0'', 100), (''1'', 99)],
            clients = [((''10.0.0.1'', 5000), viewer\<lparr>last_sent := 100\<rparr>)]\<rparr>"
  by (simp add: resolve_def eval_defs del: wire_len.simps)

lemma second_call_receivers:
  "receivers (join_env (100 + 1 / 200)) ''0''
     (polled (join_env (100 + 1 / 200)) default_config
        \<lparr>lock = 0, server = 7, last_times = [(''0'', 100), (''1'', 99)],
           clients = [((''10.0.0.1'', 5000), viewer\<lparr>last_sent := 100\<rparr>)]\<rparr>)
   = [((''10.0.0.2'', 5001),
       \<lparr>sock = 9, chan = Some ''0'', quality = 80, delay = Fin (1 / 100), last_sent = 0,
          headers_sent = True\<rparr>)]"
  by (simp add: polled_def eval_defs del: wire_len.simps)

theorem rate_limit_witness:
  "sends_chunk (frame_call 100 ''0'') streaming_globals
   \<and> (\<exists>ep. resolve (join_env (100 + 1 / 200)) ''0'' ([], 8080)
              (fold step [frame_call 100 ''1''] (step (frame_call 100 ''0'') streaming_globals))
            = Some ep
          \<and> receivers (join_env (100 + 1 / 200)) ''0''
               (polled (join_env (100 + 1 / 200)) default_config ep) \<noteq> []
          \<and> map_of (last_times ep) ''0'' = Some 100)
   \<and> now (c_env (join_call (100 + 1 / 200))) - 100 < min_delay (c_cfg (join_call (100 + 1 / 200)))
   \<and> \<not> sends_chunk (join_call (100 + 1 / 200))
         (fold step [frame_call 100 ''1''] (step (frame_call 100 ''0'') streaming_globals))"
proof -
  have a: "sends_chunk (frame_call 100 ''0'') streaming_globals"
    by (simp add: model_defs input_defs)
  have b: "c_ip (join_call (100 + 1 / 200)) = c_ip (frame_call 100 ''0'')
      \<and> c_port (join_call (100 + 1 / 200)) = c_port (frame_call 100 ''0'')
      \<and> c_channel (join_call (100 + 1 / 200)) = c_channel (frame_call 100 ''0'')
      \<and> now (c_env (join_call (100 + 1 / 200))) - now (c_env (frame_call 100 ''0''))
          < min_delay (c_cfg (join_call (100 + 1 / 200)))"
    by (simp add: input_defs)
  have c: "\<forall>k \<in> set [frame_call 100 ''1''].
             now (c_env (frame_call 100 ''0'')) \<le> now (c_env k)
             \<and> \<not> is_shutdown_of (c_ip (frame_call 100 ''0''), c_port (frame_call 100 ''0'')) k"
    by (simp add: input_defs is_shutdown_of_def)
  have d: "\<exists>ep. resolve (join_env (100 + 1 / 200)) ''0'' ([], 8080)
              (fold step [frame_call 100 ''1''] (step (frame_call 100 ''0'') streaming_globals))
            = Some ep
          \<and> receivers (join_env (100 + 1 / 200)) ''0''
               (polled (join_env (100 + 1 / 200)) default_config ep) \<noteq> []
          \<and> map_of (last_times ep) ''0'' = Some 100"
    using second_call_has_receiver second_call_receivers by simp
  have e: "now (c_env (join_call (100 + 1 / 200))) - 100
             < min_delay (c_cfg (join_call (100 + 1 / 200)))"
    by (simp add: input_defs)
  show ?thesis
    using a b c d e rate_limit [of "frame_call 100 ''0''" streaming_globals
        "join_call (100 + 1 / 200)" "[frame_call 100 ''1'']"]
    by blast
qed

text \<open>C1 as stated fails: the only client is dropped and the endpoint shut down after the
  first call, so that the call three milliseconds after it creates the endpoint anew, with
  the last broadcast time set one second back by line 147, and sends a chunk to the client
  that joins.\<close>

theorem rate_limit_counterexample:
  "emits (frame_call 100 ''0'') streaming_globals
     = [Encode (ArrayFrame []) 50, SendOk 8 (FrameChunk [] ''JPEG'')]
   \<and> emits (join_call (100 + 3 / 1000))
        (fold step [drop_call (100 + 1 / 1000), shutdown_at (100 + 2 / 1000)]
           (step (frame_call 100 ''0'') streaming_globals))
     = [Listen ([], 8080) 7, Accepted 9 (''10.0.0.2'', 5001), SendOk 9 StreamHeader,
        Encode (ArrayFrame []) 80, SendOk 9 (FrameChunk [] ''JPEG'')]
   \<and> c_channel (join_call (100 + 3 / 1000)) = c_channel (frame_call 100 ''0'')
   \<and> c_ip (join_call (100 + 3 / 1000)) = c_ip (frame_call 100 ''0'')
   \<and> c_port (join_call (100 + 3 / 1000)) = c_port (frame_call 100 ''0'')
   \<and> now (c_env (join_call (100 + 3 / 1000))) - now (c_env (frame_call 100 ''0''))
       < min_delay (c_cfg (join_call (100 + 3 / 1000)))"
  by (simp add: eval_defs del: wire_len.simps)

subsection \<open>One encoding per round\<close>


text \<open>Chunk and encoder events of a call are those of its round.\<close>

lemma events_served:
  assumes "filter is_chunk (snd (snd (handle_frame e cfg frame channel ip port g))) \<noteq> []
           \<or> filter is_encode (snd (snd (handle_frame e cfg frame channel ip port g))) \<noteq> []"
  shows "\<exists>f ep x ret sent ep' ev2.
           frame = Some f \<and> resolve e channel (ip, port) g = Some ep
           \<and> broadcast e cfg f channel ep = (x, ret, sent, ep', ev2)
           \<and> filter is_chunk (snd (snd (handle_frame e cfg frame channel ip port g)))
               = filter is_chunk ev2
           \<and> filter is_encode (snd (snd (handle_frame e cfg frame channel ip port g)))
               = filter is_encode ev2"
proof -
  from handle_frame_chunk_served [OF assms]
  obtain f ep g1 ev1 where fr: "frame = Some f" and free: "\<not> SERVERS_LOCK g"
    and goc: "get_or_create e (ip, port) (g\<lparr>SERVERS_LOCK := True\<rparr>) = Inr (ep, g1, ev1)"
    and nl: "\<not> locks g1 (lock ep)"
    by blast
  obtain x ret sent ep' ev2 where
    b: "broadcast e cfg f channel (touch_channel e channel ep) = (x, ret, sent, ep', ev2)"
    by (cases "broadcast e cfg f channel (touch_channel e channel ep)") auto
  note hf = handle_frame_served [OF free goc nl b]
  have "resolve e channel (ip, port) g = Some (touch_channel e channel ep)"
    by (simp add: resolve_def goc)
  then show ?thesis
    using fr b hf get_or_create_events [OF goc] by simp
qed










text \<open>The other round without a frame in which the encoder runs: it returns and every
  \<^verbatim>\<open>send\<close> raises, which drops both clients.\<close>

lemma encode_all_sends_fail:
  "emits (send_fails_call 100) two_viewers_globals
     = [Encode (ArrayFrame []) 70, SendFail 8 (FrameChunk [] ''JPEG''),
        SendFail 9 (FrameChunk [] ''JPEG'')]
   \<and> fst (run_call (send_fails_call 100) two_viewers_globals)
       = Returns [(''10.0.0.1'', 5000), (''10.0.0.2'', 5001)] 0"
  by (simp add: eval_defs del: wire_len.simps)

subsection \<open>Negotiation\<close>

lemma py_max_Fin: "py_max m (scale_ms (Fin x)) = Fin (max m (x * (1 / 1000)))"
  by (simp add: max_def)

text \<open>
  C3 (amended). For a request that is read, is not an index request and is kept, the stored
  state is updated from the scanned parameters: the quality becomes
  \<^verbatim>\<open>min(max_quality, q)\<close> for a quality parameter \<open>q\<close> and \<^verbatim>\<open>min(max_quality, stored)\<close>
  without one; the delay becomes \<^verbatim>\<open>max(min_delay, d * 1e-3)\<close> for a delay parameter \<open>d\<close>;
  the channel is the channel parameter, else the source parameter, else the stored one;
  socket and last-sent time are kept.
\<close>

theorem negotiation_update:
  assumes "recv e (sock cl) = Data d"
    and "handle_request e cfg lt cl = (Some cl', n, ev)"
  shows "(\<forall>v. dict_get (PARAM_RE_findall d) ''quality'' = Some v \<longrightarrow>
            (\<exists>q. py_int v = Some q \<and> quality cl' = min (max_quality cfg) q))
       \<and> (dict_get (PARAM_RE_findall d) ''quality'' = None \<longrightarrow>
            quality cl' = min (max_quality cfg) (quality cl))
       \<and> (\<forall>v. dict_get (PARAM_RE_findall d) ''delay'' = Some v \<longrightarrow>
            (\<exists>y. py_float v = Some y \<and> delay cl' = py_max (min_delay cfg) (scale_ms y)
                 \<and> (\<forall>x. y = Fin x \<longrightarrow> delay cl' = Fin (max (min_delay cfg) (x * (1 / 1000))))))
       \<and> chan cl' = (case dict_get (PARAM_RE_findall d) ''channel'' of
                       Some c \<Rightarrow> Some c
                     | None \<Rightarrow> (case dict_get (PARAM_RE_findall d) ''source'' of
                                  Some c \<Rightarrow> Some c
                                | None \<Rightarrow> chan cl))
       \<and> sock cl' = sock cl \<and> last_sent cl' = last_sent cl \<and> headers_sent cl'"
  using assms
  by (auto simp: handle_request_def negotiate_def Let_def py_max_Fin
      split: if_splits option.splits)

theorem negotiation_update_witness:
  "recv (request_env ''GET /?quality=10&delay=500 HTTP/1.0'') (sock accepted_client)
     = Data ''GET /?quality=10&delay=500 HTTP/1.0''
   \<and> handle_request (request_env ''GET /?quality=10&delay=500 HTTP/1.0'') default_config []
        accepted_client
     = (Some (accepted_client\<lparr>quality := 10, delay := Fin (1 / 2), headers_sent := True\<rparr>),
        105, [SendOk 8 StreamHeader])
   \<and> dict_get (PARAM_RE_findall ''GET /?quality=10&delay=500 HTTP/1.0'') ''quality'' = Some ''10''
   \<and> py_int ''10'' = Some 10
   \<and> quality (accepted_client\<lparr>quality := 10, delay := Fin (1 / 2), headers_sent := True\<rparr>)
       = min (max_quality default_config) 10
   \<and> chan (accepted_client\<lparr>quality := 10, delay := Fin (1 / 2), headers_sent := True\<rparr>)
       = chan accepted_client"
proof -
  let ?d = "''GET /?quality=10&delay=500 HTTP/1.0''"
  let ?cl' = "accepted_client\<lparr>quality := 10, delay := Fin (1 / 2), headers_sent := True\<rparr>"
  have a: "recv (request_env ?d) (sock accepted_client) = Data ?d"
    by (simp add: input_defs)
  have b: "handle_request (request_env ?d) default_config [] accepted_client
             = (Some ?cl', 105, [SendOk 8 StreamHeader])"
    by (simp add: parse_defs Let_def scan_quality_delay scan_numbers wire_len_header input_defs
        del: wire_len.simps)
  have c: "dict_get (PARAM_RE_findall ?d) ''quality'' = Some ''10''"
    by (simp add: scan_quality_delay dict_get_def)
  have d: "py_int ''10'' = Some 10"
    by (rule scan_numbers)
  have "quality ?cl' = min (max_quality default_config) 10 \<and> chan ?cl' = chan accepted_client"
    using negotiation_update [OF a b] c d by (simp add: scan_quality_delay dict_get_def)
  then show ?thesis using a b c d by blast
qed

text \<open>C3 as stated fails: a client accepted by a call with \<^verbatim>\<open>default_quality=100\<close> sends,
  during a call with \<^verbatim>\<open>max_quality=95\<close>, a request without parameters, and its quality
  becomes 95.\<close>

theorem quality_fallback_counterexample:
  "dict_get (PARAM_RE_findall ''GET / HTTP/1.0'') ''quality'' = None
   \<and> handle_request (request_env ''GET / HTTP/1.0'') default_config [] accepted_client
       = (Some (accepted_client\<lparr>quality := 95, delay := Fin (1 / 100), headers_sent := True\<rparr>),
          105, [SendOk 8 StreamHeader])
   \<and> quality accepted_client = 100"
  by (simp add: parse_defs Let_def scan_plain_get wire_len_header input_defs del: wire_len.simps)

text \<open>Without a delay parameter the stored delay, which is in seconds, goes through the
  same factor \<^verbatim>\<open>1e-3\<close> and floor (line 193): it is not kept.\<close>

lemma delay_fallback_scaled:
  assumes "recv e (sock cl) = Data d"
    and "handle_request e cfg lt cl = (Some cl', n, ev)"
    and "dict_get (PARAM_RE_findall d) ''delay'' = None"
  shows "delay cl' = py_max (min_delay cfg) (scale_ms (delay cl))"
  using assms
  by (auto simp: handle_request_def negotiate_def Let_def split: if_splits option.splits)

text \<open>
  C4 (amended). A client whose \<open>headers_sent\<close> flag is already set and that sends a further
  non-empty, non-index request whose parameters are numbers is re-negotiated, and the
  stream header is handed to \<^verbatim>\<open>send\<close> once more; when that \<^verbatim>\<open>send\<close> raises the client is
  dropped.
\<close>

theorem renegotiation_resends_header:
  assumes "headers_sent cl"
    and "recv e (sock cl) = Data d" and "d \<noteq> []" and "\<not> index_request cfg d"
    and "negotiate cfg cl d = Some (c, q, dl)"
  shows "handle_request e cfg lt cl
         = (if send_ok e (sock cl) StreamHeader
            then (Some (cl\<lparr>chan := c, quality := q, delay := dl\<rparr>), length STREAM_HEADER,
                  [SendOk (sock cl) StreamHeader])
            else (None, 0, [SendFail (sock cl) StreamHeader]))"
  using assms by (simp add: handle_request_def)

lemma viewer_renegotiates:
  "negotiate default_config viewer ''GET /?quality=10&delay=500 HTTP/1.0''
     = Some (Some ''0'', 10, Fin (1 / 2))"
  by (simp add: negotiate_def dict_get_def Let_def scan_quality_delay scan_numbers input_defs)

lemma not_index_quality_delay:
  "\<not> index_request default_config ''GET /?quality=10&delay=500 HTTP/1.0''"
  by (simp add: index_request_def scan_quality_delay)

theorem renegotiation_resends_header_witness:
  "headers_sent viewer
   \<and> recv (request_env ''GET /?quality=10&delay=500 HTTP/1.0'') (sock viewer)
       = Data ''GET /?quality=10&delay=500 HTTP/1.0''
   \<and> \<not> index_request default_config ''GET /?quality=10&delay=500 HTTP/1.0''
   \<and> negotiate default_config viewer ''GET /?quality=10&delay=500 HTTP/1.0''
       = Some (Some ''0'', 10, Fin (1 / 2))
   \<and> handle_request (request_env ''GET /?quality=10&delay=500 HTTP/1.0'') default_config [] viewer
       = (Some (viewer\<lparr>chan := Some ''0'', quality := 10, delay := Fin (1 / 2)\<rparr>),
          length STREAM_HEADER, [SendOk (sock viewer) StreamHeader])"
proof -
  let ?d = "''GET /?quality=10&delay=500 HTTP/1.0''"
  have a: "headers_sent viewer" by (simp add: input_defs)
  have b: "recv (request_env ?d) (sock viewer) = Data ?d" by (simp add: input_defs)
  have c: "?d \<noteq> []" by simp
  have s: "send_ok (request_env ?d) (sock viewer) StreamHeader" by (simp add: input_defs)
  show ?thesis
    using a b not_index_quality_delay viewer_renegotiates s
      renegotiation_resends_header [OF a b c not_index_quality_delay viewer_renegotiates, of "[]"]
    by simp
qed

text \<open>C4 as stated fails: a streaming client asks for another quality and delay, and the
  call sends it the stream header again, then the next chunk.\<close>

theorem header_resent_counterexample:
  "headers_sent viewer
   \<and> emits (request_call ''GET /?quality=10&delay=500 HTTP/1.0'') streaming_globals
       = [SendOk 8 StreamHeader, Encode (ArrayFrame []) 10, SendOk 8 (FrameChunk [] ''JPEG'')]
   \<and> map_of (SERVERS (step (request_call ''GET /?quality=10&delay=500 HTTP/1.0'') streaming_globals))
         ([], 8080)
       = Some (streaming_endpoint\<lparr>last_times := [(''0'', 100)], clients :=
            [((''10.0.0.1'', 5000),
              viewer\<lparr>quality := 10, delay := Fin (1 / 2), last_sent := 100\<rparr>)]\<rparr>)"
  by (simp add: model_defs parse_defs Let_def scan_quality_delay scan_numbers wire_len_header
      input_defs del: wire_len.simps)

subsection \<open>Dropped clients\<close>










subsection \<open>Failures inside a call\<close>

lemma unlock_idle: "\<not> SERVERS_LOCK g \<Longrightarrow> g\<lparr>SERVERS_LOCK := False\<rparr> = g"
  by (cases g) simp

text \<open>
  C5 (amended). If the image encoder raises during a broadcast call, the exception is caught
  inside the call: the call returns its pair normally with both locks released, no chunk is
  sent, and the Endpoint stays registered with the client table as request handling left it
  (the channel's last broadcast time is not advanced).
\<close>

theorem encoder_failure_swallowed:
  assumes free: "\<not> SERVERS_LOCK g"
    and ep_free: "\<And>ep0. map_of (SERVERS g) (ip, port) = Some ep0 \<Longrightarrow> \<not> locks g (lock ep0)"
    and res: "resolve e channel (ip, port) g = Some ep"
    and go: "send_due e cfg channel ep"
    and enc: "jpeg_compress e f (encode_quality e cfg channel ep) = None"
  shows "\<exists>ret sent g' evs.
           handle_frame e cfg (Some f) channel ip port g = (Returns ret sent, g', evs)
           \<and> \<not> SERVERS_LOCK g' \<and> (\<forall>l. locks g' l \<longrightarrow> locks g l)
           \<and> map_of (SERVERS g') (ip, port) = Some (ep\<lparr>clients := polled e cfg ep\<rparr>)
           \<and> filter is_chunk evs = []"
proof -
  from res obtain ep0 g1 ev1 where
    goc: "get_or_create e (ip, port) (g\<lparr>SERVERS_LOCK := True\<rparr>) = Inr (ep0, g1, ev1)"
    and ep: "ep = touch_channel e channel ep0"
    by (auto simp: resolve_def split: sum.splits)
  have sub: "\<And>l. locks g1 l \<Longrightarrow> locks g l" using get_or_create_fields(3) [OF goc] by simp
  have nl: "\<not> locks g1 (lock ep0)"
  proof (cases "map_of (SERVERS g) (ip, port)")
    case None
    then show ?thesis using get_or_create_fields(4) [OF goc] by simp
  next
    case (Some ep1)
    then have "ep0 = ep1 \<and> g1 = g\<lparr>SERVERS_LOCK := True\<rparr>"
      using get_or_create_fields(5) [OF goc, of ep1] by simp
    then show ?thesis using ep_free [OF Some] by simp
  qed
  obtain x ret sent ep' ev2 where
    b: "broadcast e cfg f channel ep = (x, ret, sent, ep', ev2)"
    by (cases "broadcast e cfg f channel ep") auto
  note hf = handle_frame_served [OF free goc nl b [unfolded ep]]
  from broadcast_open [OF go b] enc
  have "filter is_chunk ev2 = []" "ep' = ep\<lparr>clients := polled e cfg ep\<rparr>" by simp_all
  then show ?thesis
    using hf sub get_or_create_events [OF goc] by (auto simp: update_conv' split: if_splits)
qed

theorem encoder_failure_swallowed_witness:
  "resolve failing_encoder_env ''0'' ([], 8080) streaming_globals = Some streaming_endpoint
   \<and> send_due failing_encoder_env default_config ''0'' streaming_endpoint
   \<and> jpeg_compress failing_encoder_env (ArrayFrame [])
        (encode_quality failing_encoder_env default_config ''0'' streaming_endpoint) = None
   \<and> (\<exists>ret sent g' evs.
         handle_frame failing_encoder_env default_config (Some (ArrayFrame [])) ''0'' [] 8080
           streaming_globals = (Returns ret sent, g', evs)
         \<and> \<not> SERVERS_LOCK g' \<and> (\<forall>l. locks g' l \<longrightarrow> locks streaming_globals l)
         \<and> map_of (SERVERS g') ([], 8080)
             = Some (streaming_endpoint\<lparr>clients :=
                       polled failing_encoder_env default_config streaming_endpoint\<rparr>)
         \<and> filter is_chunk evs = [])"
proof -
  have a: "\<not> SERVERS_LOCK streaming_globals"
    by (simp add: input_defs)
  have b: "\<And>ep0. map_of (SERVERS streaming_globals) ([], 8080) = Some ep0
             \<Longrightarrow> \<not> locks streaming_globals (lock ep0)"
    by (simp add: input_defs)
  have c: "resolve failing_encoder_env ''0'' ([], 8080) streaming_globals = Some streaming_endpoint"
    by (simp add: resolve_def model_defs input_defs)
  have d: "send_due failing_encoder_env default_config ''0'' streaming_endpoint"
    by (simp add: send_due_def polled_def model_defs input_defs)
  have e: "jpeg_compress failing_encoder_env (ArrayFrame [])
        (encode_quality failing_encoder_env default_config ''0'' streaming_endpoint) = None"
    by (simp add: jpeg_compress_def input_defs)
  show ?thesis
    using c d e encoder_failure_swallowed [of streaming_globals "[]" 8080, OF a b c d e]
    by blast
qed

text \<open>C5 as stated fails: with a raising encoder the call returns the client list and
  zero bytes; nothing reaches the caller as an exception.\<close>

theorem encoder_failure_counterexample:
  "fst (run_call (failing_encoder_call 100 ''0'') streaming_globals)
     = Returns [(''10.0.0.1'', 5000)] 0
   \<and> fst (run_call (failing_encoder_call 100 ''0'') streaming_globals) \<noteq> Raises EncoderError"
  by (simp add: model_defs input_defs)

text \<open>
  C6 (amended). When the Endpoint for an unseen address has to be created and bind or listen
  raises, the failure is caught inside the call, which returns an empty client list and zero
  bytes; the module state is unchanged, so no Endpoint is registered for that address.
\<close>

theorem bind_failure_swallowed:
  assumes "\<not> SERVERS_LOCK g" and "map_of (SERVERS g) (ip, port) = None" and "listen e = None"
  shows "handle_frame e cfg frame channel ip port g = (Returns [] 0, g, [])
         \<and> map_of (SERVERS (fst (snd (handle_frame e cfg frame channel ip port g)))) (ip, port) = None"
  using assms by (simp add: handle_frame_def get_or_create_def finish_None unlock_idle)

theorem bind_failure_swallowed_witness:
  "\<not> SERVERS_LOCK init_globals \<and> map_of (SERVERS init_globals) ([], 8080) = None
   \<and> listen bind_fails_env = None
   \<and> handle_frame bind_fails_env default_config (Some (ArrayFrame [])) ''0'' [] 8080 init_globals
       = (Returns [] 0, init_globals, [])"
proof -
  have a: "\<not> SERVERS_LOCK init_globals" "map_of (SERVERS init_globals) ([], 8080) = None"
    "listen bind_fails_env = None"
    by (simp_all add: input_defs)
  show ?thesis
    using a bind_failure_swallowed [OF a, of default_config "Some (ArrayFrame [])" "''0''"]
    by blast
qed

text \<open>C6 as stated fails: the bind failure does not reach the caller.\<close>

theorem bind_failure_counterexample:
  "fst (handle_frame bind_fails_env default_config (Some (ArrayFrame [])) ''0'' [] 8080 init_globals)
     = Returns [] 0
   \<and> fst (handle_frame bind_fails_env default_config (Some (ArrayFrame [])) ''0'' [] 8080 init_globals)
     \<noteq> Raises OSError"
  by (simp add: model_defs input_defs)

text \<open>
  C7 (amended). A shutdown call for an address that has no Endpoint (as after a shutdown
  that removed it) returns an empty pair without error and leaves the registry as it was,
  with no lock held; it is not a short-circuit: when bind and listen succeed it creates a
  listening socket, registers an Endpoint, closes the socket and removes the Endpoint again.
\<close>

theorem second_shutdown:
  assumes "\<not> SERVERS_LOCK g" and "map_of (SERVERS g) (ip, port) = None"
  shows "\<exists>g'. handle_frame e cfg None channel ip port g
               = (Returns [] 0, g',
                  case listen e of None \<Rightarrow> [] | Some s \<Rightarrow> [Listen (ip, port) s, Close s])
              \<and> SERVERS g' = SERVERS g \<and> \<not> SERVERS_LOCK g' \<and> (\<forall>l. locks g' l \<longrightarrow> locks g l)"
proof (cases "listen e")
  case None
  then show ?thesis
    using assms by (simp add: handle_frame_def get_or_create_def finish_None)
next
  case (Some s)
  have "(ip, port) \<notin> fst ` set (SERVERS g)"
    using assms(2) by (simp add: map_of_eq_None_iff)
  then have "AList.delete (ip, port) (SERVERS g) = SERVERS g" by simp
  then show ?thesis
    using assms Some
    by (simp add: handle_frame_def get_or_create_def teardown_def touch_channel_def store_def
        release_def release_SERVERS_LOCK_def delete_update_same)
qed

theorem second_shutdown_witness:
  "\<not> SERVERS_LOCK (step shutdown_call (step (frame_call 100 ''0'') init_globals))
   \<and> map_of (SERVERS (step shutdown_call (step (frame_call 100 ''0'') init_globals))) ([], 8080) = None
   \<and> (\<exists>g'. handle_frame idle_env default_config None [] [] 8080
               (step shutdown_call (step (frame_call 100 ''0'') init_globals))
             = (Returns [] 0, g', [Listen ([], 8080) 7, Close 7])
            \<and> SERVERS g' = SERVERS (step shutdown_call (step (frame_call 100 ''0'') init_globals))
            \<and> \<not> SERVERS_LOCK g')"
proof -
  let ?g = "step shutdown_call (step (frame_call 100 ''0'') init_globals)"
  have a: "\<not> SERVERS_LOCK ?g" "map_of (SERVERS ?g) ([], 8080) = None"
    by (simp_all add: model_defs input_defs)
  have l: "listen idle_env = Some 7" by (simp add: input_defs)
  show ?thesis
    using a second_shutdown [OF a, of idle_env default_config "[]"] unfolding l by auto
qed

text \<open>C7 as stated fails: after a frame call created the endpoint and a shutdown removed
  it, a second shutdown binds and closes a new listening socket.\<close>

theorem second_shutdown_counterexample:
  "SERVERS (step (frame_call 100 ''0'') init_globals)
     = [(([], 8080), \<lparr>lock = 0, server = 7, last_times = [(''0'', 99)], clients = []\<rparr>)]
   \<and> SERVERS (step shutdown_call (step (frame_call 100 ''0'') init_globals)) = []
   \<and> emits shutdown_call (step shutdown_call (step (frame_call 100 ''0'') init_globals))
       = [Listen ([], 8080) 7, Close 7]"
  by (simp add: model_defs input_defs)

text \<open>The shutdown of an endpoint that still has clients closes nothing and leaves the
  endpoint registered: the loop of line 149 raises at the first client tuple, and the
  handler of line 234 swallows it.\<close>

lemma shutdown_with_clients:
  assumes "\<not> SERVERS_LOCK g" and "map_of (SERVERS g) (ip, port) = Some ep"
    and "\<not> locks g (lock ep)" and "clients ep \<noteq> []"
  shows "fst (handle_frame e cfg None channel ip port g) = Returns [] 0
         \<and> snd (snd (handle_frame e cfg None channel ip port g)) = []
         \<and> map_of (SERVERS (fst (snd (handle_frame e cfg None channel ip port g)))) (ip, port)
             = Some (touch_channel e channel ep)"
  using assms
  by (simp add: handle_frame_def get_or_create_def teardown_def finish_held update_conv')

subsection \<open>Header before chunks\<close>

lemma header_first_mono: "header_first T tr \<Longrightarrow> T \<subseteq> T' \<Longrightarrow> header_first T' tr"
proof (induction tr arbitrary: T T')
  case Nil
  show ?case by simp
next
  case (Cons x tr)
  have "header_first (insert x T') tr"
    using Cons.IH [of "insert x T" "insert x T'"] Cons.prems by auto
  then show ?case using Cons.prems by (auto split: if_splits)
qed

lemma header_first_append:
  "header_first T (xs @ ys) \<longleftrightarrow> header_first T xs \<and> header_first (T \<union> set xs) ys"
  by (induction xs arbitrary: T) (auto simp: Un_insert_left [symmetric] simp del: Un_insert_left)

lemma header_first_plain: "filter is_chunk xs = [] \<Longrightarrow> header_first T xs"
  by (induction xs arbitrary: T) (auto split: if_splits)

lemma is_send_to_send_event [simp]: "is_send_to s (send_event e m s') \<longleftrightarrow> s' = s"
  by (simp add: send_event_def)

lemma header_first_chunks:
  assumes "\<forall>(ra, cl) \<in> set rcv. SendOk (sock cl) StreamHeader \<in> T"
  shows "header_first T (chunk_events e m rcv)"
  using assms
proof (induction rcv arbitrary: T)
  case Nil
  show ?case by (simp add: chunk_events_def)
next
  case (Cons p rcv)
  obtain ra cl where p: "p = (ra, cl)" by (cases p)
  have "header_first (insert (send_event e m (sock cl)) T) (chunk_events e m rcv)"
    using Cons.IH [of "insert (send_event e m (sock cl)) T"] Cons.prems by auto
  moreover have "\<exists>s. is_send_to s (send_event e m (sock cl)) \<and> SendOk s StreamHeader \<in> T"
    using Cons.prems p by auto
  ultimately show ?case by (simp add: chunk_events_def p)
qed

lemma set_update_cases: "p \<in> set (AList.update k v xs) \<Longrightarrow> p = (k, v) \<or> p \<in> set xs"
  by (induction xs) (auto split: if_splits)

lemma set_delete_subset: "p \<in> set (AList.delete k xs) \<Longrightarrow> p \<in> set xs"
  by (induction xs) (auto split: if_splits)

text \<open>The flag is set by the request step only together with a successful header.\<close>

lemma handle_request_kept:
  assumes "handle_request e cfg lt cl = (Some cl', n, ev)"
  shows "ev = [SendOk (sock cl) StreamHeader] \<and> sock cl' = sock cl \<and> headers_sent cl'"
  using assms
  by (auto simp: handle_request_def split: recv_result.splits if_splits option.splits)

lemma requests_loop_headers:
  assumes "\<forall>(ra, cl) \<in> set cls. headers_sent cl \<longrightarrow> SendOk (sock cl) StreamHeader \<in> T \<union> set evs"
    and "requests_loop e cfg lt snap (cls, sent, evs) = (cls', sent', evs')"
  shows "\<forall>(ra, cl) \<in> set cls'. headers_sent cl \<longrightarrow> SendOk (sock cl) StreamHeader \<in> T \<union> set evs'"
  using assms
proof (induction snap arbitrary: cls sent evs)
  case Nil
  then show ?case by simp
next
  case (Cons p snap)
  obtain ra cl where p: "p = (ra, cl)" by (cases p)
  show ?case
  proof (cases "readable e (sock cl)")
    case False
    then show ?thesis using Cons.IH [OF Cons.prems(1)] Cons.prems(2) by (simp add: p)
  next
    case True
    obtain r n ev where h: "handle_request e cfg lt cl = (r, n, ev)"
      by (cases "handle_request e cfg lt cl")
    show ?thesis
    proof (cases r)
      case None
      have "\<forall>(ra', cl') \<in> set (AList.delete ra cls).
              headers_sent cl' \<longrightarrow> SendOk (sock cl') StreamHeader \<in> T \<union> set (evs @ ev)"
        using Cons.prems(1) set_delete_subset [of _ ra cls] by fastforce
      from Cons.IH [OF this] show ?thesis using Cons.prems(2) by (simp add: p h True None)
    next
      case (Some c)
      from handle_request_kept [OF h [unfolded Some]]
      have k: "ev = [SendOk (sock cl) StreamHeader]" "sock c = sock cl" by simp_all
      have "\<forall>(ra', cl') \<in> set (AList.update ra c cls).
              headers_sent cl' \<longrightarrow> SendOk (sock cl') StreamHeader \<in> T \<union> set (evs @ ev)"
        using Cons.prems(1) k set_update_cases [of _ ra c cls] by fastforce
      from Cons.IH [OF this] show ?thesis using Cons.prems(2) by (simp add: p h True Some)
    qed
  qed
qed

lemma send_loop_headers:
  assumes "\<forall>(ra, cl) \<in> set cls. headers_sent cl \<longrightarrow> SendOk (sock cl) StreamHeader \<in> T"
    and "\<forall>(ra, cl) \<in> set rcv. headers_sent cl \<longrightarrow> SendOk (sock cl) StreamHeader \<in> T"
    and "send_loop e m rcv (cls, sent, evs) = (cls', sent', evs')"
  shows "\<forall>(ra, cl) \<in> set cls'. headers_sent cl \<longrightarrow> SendOk (sock cl) StreamHeader \<in> T"
  using assms
proof (induction rcv arbitrary: cls sent evs)
  case Nil
  then show ?case by simp
next
  case (Cons p rcv)
  obtain ra cl where p: "p = (ra, cl)" by (cases p)
  have tail: "\<forall>(ra, cl) \<in> set rcv. headers_sent cl \<longrightarrow> SendOk (sock cl) StreamHeader \<in> T"
    using Cons.prems(2) by simp
  show ?case
  proof (cases "send_ok e (sock cl) m")
    case True
    have "\<forall>(ra', cl') \<in> set (AList.update ra (cl\<lparr>last_sent := now e\<rparr>) cls).
            headers_sent cl' \<longrightarrow> SendOk (sock cl') StreamHeader \<in> T"
      using Cons.prems(1,2) p set_update_cases [of _ ra "cl\<lparr>last_sent := now e\<rparr>" cls]
      by fastforce
    from Cons.IH [OF this tail] show ?thesis using Cons.prems(3) by (simp add: p True)
  next
    case False
    have "\<forall>(ra', cl') \<in> set (AList.delete ra cls).
            headers_sent cl' \<longrightarrow> SendOk (sock cl') StreamHeader \<in> T"
      using Cons.prems(1) set_delete_subset [of _ ra cls] by fastforce
    from Cons.IH [OF this tail] show ?thesis using Cons.prems(3) by (simp add: p False)
  qed
qed


lemma accept_conn_headers:
  assumes "\<forall>(ra, cl) \<in> set cls. headers_sent cl \<longrightarrow> SendOk (sock cl) StreamHeader \<in> T"
    and "accept_conn e cfg cls = Inr (cls0, ev0)"
  shows "\<forall>(ra, cl) \<in> set cls0. headers_sent cl \<longrightarrow> SendOk (sock cl) StreamHeader \<in> T"
proof (cases "pending e")
  case NoConn
  then show ?thesis using assms by (simp add: accept_conn_def)
next
  case (Conn s ra)
  then show ?thesis
    using assms set_update_cases [of _ ra _ cls]
    by (fastforce simp: accept_conn_def)
next
  case AcceptRaises
  then show ?thesis using assms by (simp add: accept_conn_def)
qed

lemma receivers_subset: "p \<in> set (receivers e ch cls) \<Longrightarrow> p \<in> set cls \<and> headers_sent (snd p)"
  by (auto simp: receivers_def)

text \<open>One round keeps the order on every socket and the invariant on the table.\<close>

lemma broadcast_headers:
  assumes H: "\<forall>(ra, cl) \<in> set (clients ep). headers_sent cl \<longrightarrow> SendOk (sock cl) StreamHeader \<in> T"
    and b: "broadcast e cfg f ch ep = (x, ret, sent, ep', evs)"
  shows "header_first T evs"
    and "\<forall>(ra, cl) \<in> set (clients ep').
           headers_sent cl \<longrightarrow> SendOk (sock cl) StreamHeader \<in> T \<union> set evs"
proof -
  have "header_first T evs \<and> (\<forall>(ra, cl) \<in> set (clients ep').
           headers_sent cl \<longrightarrow> SendOk (sock cl) StreamHeader \<in> T \<union> set evs)"
  proof (cases "accept_conn e cfg (clients ep)")
    case (Inl ex)
    then show ?thesis using H b by (auto simp: broadcast_def)
  next
    case (Inr r)
    obtain cls0 ev0 where r: "r = (cls0, ev0)" by (cases r)
    obtain cls1 sent1 ev1 where
      rl: "requests_loop e cfg (last_times ep) cls0 (cls0, 0, ev0) = (cls1, sent1, ev1)"
      by (cases "requests_loop e cfg (last_times ep) cls0 (cls0, 0, ev0)")
    have ev1: "ev1 = ev0 @ request_events e cfg (last_times ep) cls0"
      using requests_loop_events [of e cfg "last_times ep" cls0 cls0 0 ev0] rl by simp
    have p: "polled e cfg ep = cls1"
      by (simp add: polled_def Inr r rl)
    have plain1: "filter is_chunk ev1 = []"
      using accept_conn_events [OF Inr [unfolded r]] by (simp add: ev1)
    have H0: "\<forall>(ra, cl) \<in> set cls0. headers_sent cl \<longrightarrow> SendOk (sock cl) StreamHeader \<in> T \<union> set ev0"
      using accept_conn_headers [OF H Inr [unfolded r]] by auto
    have H1: "\<forall>(ra, cl) \<in> set cls1. headers_sent cl \<longrightarrow> SendOk (sock cl) StreamHeader \<in> T \<union> set ev1"
      using requests_loop_headers [OF H0 rl] .
    let ?rcv = "receivers e ch cls1"
    let ?q = "max_list (map (\<lambda>(a, cl). quality cl) ?rcv)"
    have Hr: "\<forall>(ra, cl) \<in> set ?rcv. SendOk (sock cl) StreamHeader \<in> T \<union> set ev1"
      using H1 receivers_subset [of _ e ch cls1] by fastforce
    have early: "header_first T ev1" by (rule header_first_plain [OF plain1])
    have enc: "header_first T (ev1 @ [Encode f ?q])"
      using plain1 by (intro header_first_plain) simp
    have H1': "\<forall>(ra, cl) \<in> set cls1.
                 headers_sent cl \<longrightarrow> SendOk (sock cl) StreamHeader \<in> T \<union> set (ev1 @ [Encode f ?q])"
      using H1 by auto
    show ?thesis
    proof (cases "jpeg_compress e f ?q")
      case None
      then show ?thesis
        using b Inr r rl early enc H1 H1'
        by (auto simp: broadcast_def split: if_splits option.splits)
    next
      case (Some j)
      let ?m = "FrameChunk (headers cfg) j"
      obtain cls2 sent2 ev2 where
        sl: "send_loop e ?m ?rcv (cls1, sent1, ev1 @ [Encode f ?q]) = (cls2, sent2, ev2)"
        by (cases "send_loop e ?m ?rcv (cls1, sent1, ev1 @ [Encode f ?q])")
      have ev2: "ev2 = (ev1 @ [Encode f ?q]) @ chunk_events e ?m ?rcv"
        using send_loop_events [of e ?m ?rcv cls1 sent1 "ev1 @ [Encode f ?q]"] sl by simp
      have T2: "T \<union> set ev1 \<subseteq> T \<union> set ev2" by (auto simp: ev2)
      have Hr2: "\<forall>(ra, cl) \<in> set ?rcv. SendOk (sock cl) StreamHeader \<in> T \<union> set (ev1 @ [Encode f ?q])"
        using Hr by auto
      have hf2: "header_first T ev2"
        unfolding ev2 header_first_append [of T "ev1 @ [Encode f ?q]"]
        using enc header_first_chunks [OF Hr2] by simp
      have H1'': "\<forall>(ra, cl) \<in> set cls1.
                 headers_sent cl \<longrightarrow> SendOk (sock cl) StreamHeader \<in> T \<union> set ev2"
        using H1 T2 by fastforce
      have Hr'': "\<forall>(ra, cl) \<in> set ?rcv.
                 headers_sent cl \<longrightarrow> SendOk (sock cl) StreamHeader \<in> T \<union> set ev2"
        using Hr T2 by fastforce
      have H2: "\<forall>(ra, cl) \<in> set cls2.
                 headers_sent cl \<longrightarrow> SendOk (sock cl) StreamHeader \<in> T \<union> set ev2"
        using send_loop_headers [OF H1'' Hr'' sl] .
      show ?thesis
        using b Inr r rl early H1 Some sl hf2 H2
        by (auto simp: broadcast_def split: if_splits option.splits)
    qed
  qed
  then show "header_first T evs"
    and "\<forall>(ra, cl) \<in> set (clients ep').
           headers_sent cl \<longrightarrow> SendOk (sock cl) StreamHeader \<in> T \<union> set evs"
    by blast+
qed


lemma get_or_create_members:
  assumes "get_or_create e a g = Inr (ep, g1, ev1)"
  shows "\<forall>p \<in> set (SERVERS g1). p \<in> set (SERVERS g) \<or> p = (a, ep)"
    and "(a, ep) \<in> set (SERVERS g) \<or> clients ep = []"
proof -
  show "(a, ep) \<in> set (SERVERS g) \<or> clients ep = []"
    using assms
    by (auto simp: get_or_create_def split: option.splits dest: map_of_SomeD)
  show "\<forall>p \<in> set (SERVERS g1). p \<in> set (SERVERS g) \<or> p = (a, ep)"
  proof
    fix p
    assume m: "p \<in> set (SERVERS g1)"
    show "p \<in> set (SERVERS g) \<or> p = (a, ep)"
    proof (cases "map_of (SERVERS g) a")
      case (Some ep0)
      then show ?thesis using assms m by (simp add: get_or_create_def)
    next
      case None
      then obtain s where "listen e = Some s"
        and "SERVERS g1 = AList.update a ep (SERVERS g)"
        using assms by (auto simp: get_or_create_def split: option.splits)
      then show ?thesis using m set_update_cases [of p a ep "SERVERS g"] by auto
    qed
  qed
qed

lemma teardown_members:
  "p \<in> set (SERVERS (fst (snd (teardown a ep g evs)))) \<Longrightarrow> p \<in> set (SERVERS g)"
  by (auto simp: teardown_def release_def release_SERVERS_LOCK_def
      dest: set_delete_subset split: if_splits)

lemma headers_loggedI:
  assumes "\<And>a ep ra cl. (a, ep) \<in> set (SERVERS g) \<Longrightarrow> (ra, cl) \<in> set (clients ep)
             \<Longrightarrow> headers_sent cl \<Longrightarrow> SendOk (sock cl) StreamHeader \<in> T"
  shows "headers_logged T g"
  using assms by (auto simp: headers_logged_def)

lemma headers_loggedD:
  assumes "headers_logged T g" "(a, ep) \<in> set (SERVERS g)" "(ra, cl) \<in> set (clients ep)"
    "headers_sent cl"
  shows "SendOk (sock cl) StreamHeader \<in> T"
  using assms by (fastforce simp: headers_logged_def)

lemma headers_logged_mono: "headers_logged T g \<Longrightarrow> T \<subseteq> T' \<Longrightarrow> headers_logged T' g"
  by (fastforce simp: headers_logged_def)

text \<open>One call keeps the order on every socket and the invariant on the registry.\<close>

lemma step_headers:
  assumes inv: "headers_logged T g"
  shows "header_first T (emits c g) \<and> headers_logged (T \<union> set (emits c g)) (step c g)"
proof -
  let ?e = "c_env c" and ?cfg = "c_cfg c" and ?ch = "c_channel c"
  let ?a = "(c_ip c, c_port c)"
  let ?r = "handle_frame ?e ?cfg (c_frame c) ?ch (c_ip c) (c_port c) g"
  have em: "emits c g = snd (snd ?r)" and st: "step c g = fst (snd ?r)"
    by (simp_all add: emits_def step_def run_call_def)
  show ?thesis
  proof (cases "SERVERS_LOCK g")
    case True
    then show ?thesis using inv by (simp add: em st handle_frame_def)
  next
    case free: False
    show ?thesis
    proof (cases "get_or_create ?e ?a (g\<lparr>SERVERS_LOCK := True\<rparr>)")
      case (Inl ex)
      then show ?thesis
        using inv free by (simp add: em st handle_frame_def headers_logged_def)
    next
      case (Inr r)
      obtain ep g1 ev1 where r: "r = (ep, g1, ev1)" by (cases r)
      note goc = Inr [unfolded r]
      have plain1: "filter is_chunk ev1 = []" using get_or_create_events [OF goc] by simp
      have old: "(?a, ep) \<in> set (SERVERS g) \<or> clients ep = []"
        using get_or_create_members(2) [OF goc] by simp
      have Hep: "\<forall>(ra, cl) \<in> set (clients ep).
                   headers_sent cl \<longrightarrow> SendOk (sock cl) StreamHeader \<in> T"
        using old headers_loggedD [OF inv, of ?a ep] by fastforce
      have inv1: "headers_logged T g1"
      proof (rule headers_loggedI)
        fix a' ep' ra cl
        assume m: "(a', ep') \<in> set (SERVERS g1)" and c: "(ra, cl) \<in> set (clients ep')"
          and h: "headers_sent cl"
        from get_or_create_members(1) [OF goc] m
        have "(a', ep') \<in> set (SERVERS g) \<or> (a', ep') = (?a, ep)" by auto
        then show "SendOk (sock cl) StreamHeader \<in> T"
        proof
          assume "(a', ep') \<in> set (SERVERS g)"
          then show ?thesis using headers_loggedD [OF inv _ c h] by blast
        next
          assume "(a', ep') = (?a, ep)"
          then show ?thesis using Hep c h by fastforce
        qed
      qed
      show ?thesis
      proof (cases "locks g1 (lock ep)")
        case True
        then show ?thesis
          using free goc inv1 plain1
          by (auto simp: em st handle_frame_def header_first_plain
              intro: headers_logged_mono)
      next
        case nl: False
        show ?thesis
        proof (cases "c_frame c")
          case None
          let ?g3 = "store ?a (touch_channel ?e ?ch ep) (g1\<lparr>locks := (locks g1)(lock ep := True)\<rparr>)"
          have r3: "?r = teardown ?a (touch_channel ?e ?ch ep) ?g3 ev1"
            using free goc nl None by (simp add: handle_frame_def)
          have hf: "header_first T (snd (snd ?r))"
            unfolding r3 by (rule header_first_plain) (simp add: teardown_events plain1)
          have inv3: "headers_logged T ?g3"
          proof (rule headers_loggedI)
            fix a' ep' ra cl
            assume m: "(a', ep') \<in> set (SERVERS ?g3)" and c: "(ra, cl) \<in> set (clients ep')"
              and h: "headers_sent cl"
            from m have "(a', ep') = (?a, touch_channel ?e ?ch ep) \<or> (a', ep') \<in> set (SERVERS g1)"
              using set_update_cases [of "(a', ep')" ?a "touch_channel ?e ?ch ep" "SERVERS g1"]
              by simp
            then show "SendOk (sock cl) StreamHeader \<in> T"
            proof
              assume "(a', ep') = (?a, touch_channel ?e ?ch ep)"
              then show ?thesis using Hep c h by fastforce
            next
              assume "(a', ep') \<in> set (SERVERS g1)"
              then show ?thesis using headers_loggedD [OF inv1 _ c h] by blast
            qed
          qed
          have "headers_logged T (fst (snd ?r))"
            unfolding r3
          proof (rule headers_loggedI)
            fix a' ep' ra cl
            assume m: "(a', ep') \<in> set (SERVERS (fst (snd (teardown ?a (touch_channel ?e ?ch ep) ?g3 ev1))))"
              and c: "(ra, cl) \<in> set (clients ep')" and h: "headers_sent cl"
            from teardown_members [OF m] have "(a', ep') \<in> set (SERVERS ?g3)" .
            then show "SendOk (sock cl) StreamHeader \<in> T"
              using headers_loggedD [OF inv3 _ c h] by blast
          qed
          then show ?thesis
            using hf by (auto simp: em st intro: headers_logged_mono)
        next
          case (Some f)
          obtain x ret sent ep' ev2 where
            b: "broadcast ?e ?cfg f ?ch (touch_channel ?e ?ch ep) = (x, ret, sent, ep', ev2)"
            by (cases "broadcast ?e ?cfg f ?ch (touch_channel ?e ?ch ep)") auto
          note hf = handle_frame_served [OF free goc nl b]
          have Ht: "\<forall>(ra, cl) \<in> set (clients (touch_channel ?e ?ch ep)).
                      headers_sent cl \<longrightarrow> SendOk (sock cl) StreamHeader \<in> T \<union> set ev1"
            using Hep by fastforce
          note bh = broadcast_headers [OF Ht b]
          have o: "header_first T (ev1 @ ev2)"
            unfolding header_first_append using header_first_plain [OF plain1] bh(1) by simp
          have "headers_logged (T \<union> set (ev1 @ ev2)) (fst (snd ?r))"
          proof (rule headers_loggedI)
            fix a' ep'' ra cl
            assume m: "(a', ep'') \<in> set (SERVERS (fst (snd ?r)))"
              and c: "(ra, cl) \<in> set (clients ep'')" and h: "headers_sent cl"
            from m have "(a', ep'') = (?a, ep') \<or> (a', ep'') \<in> set (SERVERS g1)"
              using set_update_cases [of "(a', ep'')" ?a ep' "SERVERS g1"]
              by (simp add: hf Some)
            then show "SendOk (sock cl) StreamHeader \<in> T \<union> set (ev1 @ ev2)"
            proof
              assume "(a', ep'') = (?a, ep')"
              then show ?thesis using bh(2) c h by fastforce
            next
              assume "(a', ep'') \<in> set (SERVERS g1)"
              then show ?thesis using headers_loggedD [OF inv1 _ c h] by blast
            qed
          qed
          then show ?thesis using o by (simp add: em st hf Some)
        qed
      qed
    qed
  qed
qed

lemma run_headers:
  assumes "headers_logged (set tr) g" "header_first {} tr" "run cs (g, tr) = (g', tr')"
  shows "headers_logged (set tr') g' \<and> header_first {} tr'"
  using assms
proof (induction cs arbitrary: g tr)
  case Nil
  then show ?case by simp
next
  case (Cons c cs)
  from step_headers [OF Cons.prems(1), of c]
  have "header_first (set tr) (emits c g)" "headers_logged (set (tr @ emits c g)) (step c g)"
    by simp_all
  moreover from this Cons.prems(2) have "header_first {} (tr @ emits c g)"
    by (simp add: header_first_append)
  ultimately show ?case using Cons.IH [of "tr @ emits c g" "step c g"] Cons.prems(3) by simp
qed

lemma header_first_split:
  assumes "header_first T (pre @ x # post)" "is_chunk x" "is_send_to s x"
  shows "SendOk s StreamHeader \<in> T \<union> set pre"
proof -
  from assms(1) have "\<exists>s'. is_send_to s' x \<and> SendOk s' StreamHeader \<in> T \<union> set pre"
    using assms(2) by (simp add: header_first_append)
  moreover have "s' = s" if "is_send_to s' x" for s'
    using that assms(3) by (cases x) auto
  ultimately show ?thesis by auto
qed


lemma chunk_goes_to_receiver:
  assumes "x \<in> set (emits c g)" "is_chunk x"
  shows "\<exists>ep ra cl. resolve (c_env c) (c_channel c) (c_ip c, c_port c) g = Some ep
           \<and> (ra, cl) \<in> set (polled (c_env c) (c_cfg c) ep) \<and> headers_sent cl
           \<and> is_send_to (sock cl) x"
proof -
  let ?e = "c_env c" and ?cfg = "c_cfg c" and ?ch = "c_channel c"
  let ?evs = "snd (snd (handle_frame ?e ?cfg (c_frame c) ?ch (c_ip c) (c_port c) g))"
  have em: "emits c g = ?evs" by (simp add: emits_def run_call_def)
  have xin: "x \<in> set (filter is_chunk ?evs)" using assms by (simp add: em)
  have ne: "filter is_chunk ?evs \<noteq> []"
    using assms by (auto simp: em filter_empty_conv)
  from events_served [of ?e ?cfg "c_frame c" ?ch "c_ip c" "c_port c" g] ne
  obtain f ep xx ret sent ep' ev2 where
    res: "resolve ?e ?ch (c_ip c, c_port c) g = Some ep"
    and b: "broadcast ?e ?cfg f ?ch ep = (xx, ret, sent, ep', ev2)"
    and fc: "filter is_chunk ?evs = filter is_chunk ev2"
    by blast
  have go: "send_due ?e ?cfg ?ch ep"
    using broadcast_closed [OF _ b] ne fc by auto
  from broadcast_open [OF go b] ne fc
  obtain j where "filter is_chunk ev2
      = chunk_events ?e (FrameChunk (headers ?cfg) j) (receivers ?e ?ch (polled ?e ?cfg ep))"
    by (cases "jpeg_compress ?e f (encode_quality ?e ?cfg ?ch ep)") auto
  with xin fc obtain ra cl where
    m: "(ra, cl) \<in> set (receivers ?e ?ch (polled ?e ?cfg ep))"
    and x: "x = send_event ?e (FrameChunk (headers ?cfg) j) (sock cl)"
    by (auto simp: chunk_events_def)
  from receivers_subset [OF m] have "(ra, cl) \<in> set (polled ?e ?cfg ep)" "headers_sent cl"
    by simp_all
  moreover have "is_send_to (sock cl) x" by (simp add: x)
  ultimately show ?thesis using res by blast
qed

lemma init_logged: "headers_logged {} init_globals"
  by (simp add: headers_logged_def init_globals_def)

text \<open>
  C10. The stream header precedes any frame chunk on a socket. A newly accepted client record
  is stored with \<open>headers_sent\<close> false; the request step stores a record with the flag set
  only together with a successful send of the stream header on that client's socket; a
  chunk is handed to \<^verbatim>\<open>send\<close> only for a client of the table whose flag is set. Hence, after
  any sequence of calls from the initial module state, every stored record with the flag
  set has had the header sent on its socket, and every chunk in the event trace is preceded
  by a successful stream header on the same socket.
\<close>

theorem header_before_chunks:
  "(pending e = Conn s ra \<longrightarrow>
      (\<exists>cl. accept_conn e cfg cls = Inr (AList.update ra cl cls, [Accepted s ra])
            \<and> sock cl = s \<and> \<not> headers_sent cl))
   \<and> (handle_request e cfg lt cl0 = (Some cl', n, ev) \<longrightarrow>
        ev = [SendOk (sock cl0) StreamHeader] \<and> sock cl' = sock cl0 \<and> headers_sent cl')
   \<and> (\<forall>x \<in> set (emits c g0). is_chunk x \<longrightarrow>
        (\<exists>ep ra' c'. resolve (c_env c) (c_channel c) (c_ip c, c_port c) g0 = Some ep
           \<and> (ra', c') \<in> set (polled (c_env c) (c_cfg c) ep) \<and> headers_sent c'
           \<and> is_send_to (sock c') x))
   \<and> (run cs (init_globals, []) = (g, tr) \<longrightarrow>
        (\<forall>(a, ep) \<in> set (SERVERS g). \<forall>(ra', c') \<in> set (clients ep).
            headers_sent c' \<longrightarrow> SendOk (sock c') StreamHeader \<in> set tr)
        \<and> (\<forall>pre x post s'. tr = pre @ x # post \<and> is_chunk x \<and> is_send_to s' x
              \<longrightarrow> SendOk s' StreamHeader \<in> set pre))"
proof (intro conjI impI)
  assume "pending e = Conn s ra"
  then show "\<exists>cl. accept_conn e cfg cls = Inr (AList.update ra cl cls, [Accepted s ra])
            \<and> sock cl = s \<and> \<not> headers_sent cl"
    by (intro exI [of _ "\<lparr>sock = s, chan = default_chan cfg, quality = default_quality cfg,
           delay = Fin (default_delay cfg), last_sent = 0, headers_sent = False\<rparr>"])
       (simp add: accept_conn_def)
next
  assume "handle_request e cfg lt cl0 = (Some cl', n, ev)"
  from handle_request_kept [OF this]
  show "ev = [SendOk (sock cl0) StreamHeader]" "sock cl' = sock cl0" "headers_sent cl'"
    by simp_all
next
  show "\<forall>x \<in> set (emits c g0). is_chunk x \<longrightarrow>
        (\<exists>ep ra' c'. resolve (c_env c) (c_channel c) (c_ip c, c_port c) g0 = Some ep
           \<and> (ra', c') \<in> set (polled (c_env c) (c_cfg c) ep) \<and> headers_sent c'
           \<and> is_send_to (sock c') x)"
    using chunk_goes_to_receiver by blast
next
  assume r: "run cs (init_globals, []) = (g, tr)"
  have "headers_logged (set []) init_globals" "header_first {} []"
    using init_logged by simp_all
  from run_headers [OF this r] have inv: "headers_logged (set tr) g" and hf: "header_first {} tr"
    by simp_all
  show "\<forall>(a, ep) \<in> set (SERVERS g). \<forall>(ra', c') \<in> set (clients ep).
            headers_sent c' \<longrightarrow> SendOk (sock c') StreamHeader \<in> set tr"
    using inv by (simp add: headers_logged_def)
  show "\<forall>pre x post s'. tr = pre @ x # post \<and> is_chunk x \<and> is_send_to s' x
              \<longrightarrow> SendOk s' StreamHeader \<in> set pre"
    using hf header_first_split [of "{}"] by auto
qed

lemma first_round_trace:
  "snd (run [connect_call ''GET /?quality=10&delay=500 HTTP/1.0''] (init_globals, []))
     = [Listen ([], 8080) 7, Accepted 8 (''10.0.0.1'', 5000), SendOk 8 StreamHeader,
        Encode (ArrayFrame []) 10, SendOk 8 (FrameChunk [] ''JPEG'')]"
  by (simp add: model_defs parse_defs Let_def scan_quality_delay scan_numbers wire_len_header
      input_defs del: wire_len.simps)

theorem header_before_chunks_witness:
  "pending (c_env (connect_call ''GET /?quality=10&delay=500 HTTP/1.0''))
     = Conn 8 (''10.0.0.1'', 5000)
   \<and> snd (run [connect_call ''GET /?quality=10&delay=500 HTTP/1.0''] (init_globals, []))
       = [Listen ([], 8080) 7, Accepted 8 (''10.0.0.1'', 5000), SendOk 8 StreamHeader,
          Encode (ArrayFrame []) 10] @ SendOk 8 (FrameChunk [] ''JPEG'') # []
   \<and> is_chunk (SendOk 8 (FrameChunk [] ''JPEG''))
   \<and> is_send_to 8 (SendOk 8 (FrameChunk [] ''JPEG''))
   \<and> SendOk 8 StreamHeader
       \<in> set [Listen ([], 8080) 7, Accepted 8 (''10.0.0.1'', 5000), SendOk 8 StreamHeader,
              Encode (ArrayFrame []) 10]"
proof -
  let ?cs = "[connect_call ''GET /?quality=10&delay=500 HTTP/1.0'']"
  let ?pre = "[Listen ([], 8080) 7, Accepted 8 (''10.0.0.1'', 5000), SendOk 8 StreamHeader,
              Encode (ArrayFrame []) 10]"
  have a: "pending (c_env (connect_call ''GET /?quality=10&delay=500 HTTP/1.0''))
             = Conn 8 (''10.0.0.1'', 5000)"
    by (simp add: input_defs)
  have r: "run ?cs (init_globals, []) = (fst (run ?cs (init_globals, [])), snd (run ?cs (init_globals, [])))"
    by simp
  have t: "snd (run ?cs (init_globals, [])) = ?pre @ SendOk 8 (FrameChunk [] ''JPEG'') # []"
    using first_round_trace by simp
  have c: "is_chunk (SendOk 8 (FrameChunk [] ''JPEG''))" "is_send_to 8 (SendOk 8 (FrameChunk [] ''JPEG''))"
    by simp_all
  from header_before_chunks [of _ _ _ _ _ _ _ _ _ _ _ _ ?cs "fst (run ?cs (init_globals, []))"
      "snd (run ?cs (init_globals, []))"] r
  have "\<forall>pre x post s'. snd (run ?cs (init_globals, [])) = pre @ x # post \<and> is_chunk x
          \<and> is_send_to s' x \<longrightarrow> SendOk s' StreamHeader \<in> set pre"
    by blast
  with t c have "SendOk 8 StreamHeader \<in> set ?pre" by blast
  with a t c show ?thesis by blast
qed

subsection \<open>Totality\<close>



end
